(* ===== verification/Utf8_Prelude.thy ===== *)
theory Utf8_Prelude
  imports Main "HOL-Library.Word"
begin

text \<open>
  Shared vocabulary of the development: the types that stand for the Python values of
  \<^verbatim>\<open>src/fix_utf8.py\<close> (a \<^verbatim>\<open>bytes\<close> object is a list of 8-bit words, a \<^verbatim>\<open>str\<close> is a
  list of code points, a path is a \<open>string\<close>), the result type of fallible operations,
  the lemma collections the component theories extend, and the generic facts about
  bytes, base-64 digits, slices and decimal numerals that their proofs share.
\<close>

section \<open>Types of the model\<close>

type_synonym byte = "8 word"
type_synonym bytes = "byte list"
type_synonym codepoint = nat
type_synonym pystr = "codepoint list"
type_synonym path = string
type_synonym ('e, 'a) result = "'e + 'a"

named_theorems byte_nat "comparisons of bytes rewritten into comparisons of naturals"
named_theorems codec_simps "characteristic equations of the UTF-8 codec"
named_theorems fs_simps "characteristic equations of the file-system operations"

section \<open>Bytes as naturals below 256\<close>

lemma unat_byte_lt [simp]: "unat (b :: byte) < 256"
  using unsigned_less [of b, where ?'a = nat] by simp

lemma byte_less_nat [byte_nat]: "(a :: byte) < b \<longleftrightarrow> unat a < unat b"
  by (rule word_less_nat_alt)

lemma byte_le_nat [byte_nat]: "(a :: byte) \<le> b \<longleftrightarrow> unat a \<le> unat b"
  by (rule word_le_nat_alt)

lemma byte_eq_numeral [byte_nat]:
  "(b :: byte) = numeral k \<longleftrightarrow> unat b = unat (numeral k :: byte)"
  by (rule word_unat_eq_iff)

lemma unat_byte_of_nat [simp]: "n < 256 \<Longrightarrow> unat (of_nat n :: byte) = n"
  by (simp add: unat_of_nat)

lemma unat_byte_offset: "n < 256 - k \<Longrightarrow> unat (of_nat (k + n) :: byte) = k + n"
  by (rule unat_byte_of_nat) simp

lemma byte_of_nat_inj:
  "m < 256 \<Longrightarrow> n < 256 \<Longrightarrow> (of_nat m :: byte) = of_nat n \<longleftrightarrow> m = n"
  by (metis unat_byte_of_nat)

section \<open>Base-64 digits of a code point\<close>

text \<open>
  A multi-byte UTF-8 sequence stores a code point as a lead payload followed by six-bit
  digits. The decoder assembles \<open>a * 64 ^ k + \<dots> + d\<close>; the encoder takes it apart with
  \<open>div\<close> and \<open>mod\<close>. The lemmas below say that the two agree.
\<close>

lemma split64:
  "b < (64::nat) \<Longrightarrow> (a * 64 + b) div 64 = a \<and> (a * 64 + b) mod 64 = b"
  by simp

lemma div_4096: "(x::nat) div 4096 = x div 64 div 64"
  by (simp add: div_mult2_eq [symmetric])

lemma div_262144: "(x::nat) div 262144 = x div 64 div 64 div 64"
  by (simp add: div_mult2_eq [symmetric])

lemma cp2_digits:
  fixes a b :: nat
  assumes "b < 64"
  shows "(a * 64 + b) div 64 = a" "(a * 64 + b) mod 64 = b"
  using assms by simp_all

lemma cp3_digits:
  fixes a b c :: nat
  assumes "b < 64" "c < 64"
  defines "x \<equiv> a * 4096 + b * 64 + c"
  shows "x div 4096 = a" "x div 64 mod 64 = b" "x mod 64 = c"
proof -
  have e: "x = (a * 64 + b) * 64 + c" by (simp add: x_def)
  from assms(2) show "x mod 64 = c" by (simp only: e split64)
  from assms(2) have d: "x div 64 = a * 64 + b" by (simp only: e split64)
  from assms(1) show "x div 64 mod 64 = b" by (simp only: d split64)
  from assms(1) show "x div 4096 = a" by (simp only: div_4096 d split64)
qed

lemma cp4_digits:
  fixes a b c d :: nat
  assumes "b < 64" "c < 64" "d < 64"
  defines "x \<equiv> a * 262144 + b * 4096 + c * 64 + d"
  shows "x div 262144 = a" "x div 4096 mod 64 = b" "x div 64 mod 64 = c" "x mod 64 = d"
proof -
  have e: "x = (a * 4096 + b * 64 + c) * 64 + d" by (simp add: x_def)
  from assms(3) show "x mod 64 = d" by (simp only: e split64)
  from assms(3) have q: "x div 64 = a * 4096 + b * 64 + c" by (simp only: e split64)
  from assms(1,2) show "x div 64 mod 64 = c" by (simp only: q cp3_digits)
  from assms(1,2) have q2: "x div 4096 = a * 64 + b" by (simp only: q div_4096 cp3_digits)
  from assms(1) show "x div 4096 mod 64 = b" by (simp only: q2 split64)
  from assms(1,2) show "x div 262144 = a"
    by (simp only: div_262144 q div_4096 [symmetric] cp3_digits)
qed

lemma cp3_range:
  fixes a b c :: nat
  assumes "a < 16" "b < 64" "c < 64" "a = 0 \<longrightarrow> 32 \<le> b" "a = 13 \<longrightarrow> b < 32"
  defines "x \<equiv> a * 4096 + b * 64 + c"
  shows "2048 \<le> x" "x < 65536" "\<not> (55296 \<le> x \<and> x \<le> 57343)"
proof -
  show "2048 \<le> x" using assms(4) by (cases "a = 0") (simp_all add: x_def)
  show "x < 65536" using assms(1-3) by (simp add: x_def)
  consider "a < 13" | "a = 13" | "13 < a" by linarith
  then show "\<not> (55296 \<le> x \<and> x \<le> 57343)"
  proof cases
    case 1 with assms(2,3) show ?thesis by (simp add: x_def)
  next
    case 2 with assms(3,5) show ?thesis by (simp add: x_def)
  next
    case 3 then show ?thesis by (simp add: x_def)
  qed
qed

lemma cp4_range:
  fixes a b c d :: nat
  assumes "a < 5" "b < 64" "c < 64" "d < 64" "a = 0 \<longrightarrow> 16 \<le> b" "a = 4 \<longrightarrow> b < 16"
  defines "x \<equiv> a * 262144 + b * 4096 + c * 64 + d"
  shows "65536 \<le> x" "x \<le> 1114111"
proof -
  show "65536 \<le> x" using assms(5) by (cases "a = 0") (simp_all add: x_def)
  show "x \<le> 1114111" using assms(1-4,6) by (cases "a = 4") (simp_all add: x_def)
qed

text \<open>The converse: the digits the encoder extracts recompose to the code point.\<close>

lemma cp2_split:
  fixes x :: nat
  assumes "128 \<le> x" "x < 2048"
  shows "2 \<le> x div 64" "x div 64 < 32" "x mod 64 < 64" "x div 64 * 64 + x mod 64 = x"
  using assms by (simp_all add: less_eq_div_iff_mult_less_eq div_less_iff_less_mult)

lemma cp3_split:
  fixes x :: nat
  assumes "2048 \<le> x" "x < 65536" "\<not> (55296 \<le> x \<and> x \<le> 57343)"
  shows "x div 4096 < 16" "x div 64 mod 64 < 64" "x mod 64 < 64"
    "x div 4096 * 4096 + x div 64 mod 64 * 64 + x mod 64 = x"
    "x div 4096 = 0 \<longrightarrow> 32 \<le> x div 64 mod 64"
    "x div 4096 = 13 \<longrightarrow> x div 64 mod 64 < 32"
proof -
  define q where "q = x div 64"
  have q: "32 \<le> q" "q < 1024" "\<not> (864 \<le> q \<and> q < 896)"
    using assms by (auto simp: q_def less_eq_div_iff_mult_less_eq div_less_iff_less_mult)
  have rq: "q div 64 * 64 + q mod 64 = q" by simp
  show "x div 4096 < 16" using q(2) by (simp add: div_4096 q_def [symmetric] div_less_iff_less_mult)
  show "x div 64 mod 64 < 64" "x mod 64 < 64" by simp_all
  have "x = q * 64 + x mod 64" by (simp add: q_def)
  with rq show "x div 4096 * 4096 + x div 64 mod 64 * 64 + x mod 64 = x"
    unfolding div_4096 q_def [symmetric] by linarith
  show "x div 4096 = 0 \<longrightarrow> 32 \<le> x div 64 mod 64"
    using q(1) rq by (simp add: div_4096 q_def [symmetric])
  show "x div 4096 = 13 \<longrightarrow> x div 64 mod 64 < 32"
    using q(3) rq unfolding div_4096 q_def [symmetric] by linarith
qed

lemma cp4_split:
  fixes x :: nat
  assumes "65536 \<le> x" "x \<le> 1114111"
  shows "x div 262144 < 5" "x div 4096 mod 64 < 64" "x div 64 mod 64 < 64" "x mod 64 < 64"
    "x div 262144 * 262144 + x div 4096 mod 64 * 4096 + x div 64 mod 64 * 64 + x mod 64 = x"
    "x div 262144 = 0 \<longrightarrow> 16 \<le> x div 4096 mod 64"
    "x div 262144 = 4 \<longrightarrow> x div 4096 mod 64 < 16"
proof -
  define q where "q = x div 64"
  define p where "p = q div 64"
  have q: "1024 \<le> q" "q < 17408"
    using assms by (simp_all add: q_def less_eq_div_iff_mult_less_eq div_less_iff_less_mult)
  then have p: "16 \<le> p" "p < 272"
    by (simp_all add: p_def less_eq_div_iff_mult_less_eq div_less_iff_less_mult)
  have rp: "p div 64 * 64 + p mod 64 = p" by simp
  have e1: "x div 262144 = p div 64" "x div 4096 = p"
    by (simp_all add: div_262144 div_4096 p_def q_def)
  show "x div 262144 < 5" using p(2) by (simp add: e1 div_less_iff_less_mult)
  show "x div 4096 mod 64 < 64" "x div 64 mod 64 < 64" "x mod 64 < 64" by simp_all
  have "x = q * 64 + x mod 64" "q = p * 64 + q mod 64"
    by (simp_all add: q_def p_def)
  with rp show "x div 262144 * 262144 + x div 4096 mod 64 * 4096 + x div 64 mod 64 * 64 + x mod 64 = x"
    unfolding e1 q_def [symmetric] by linarith
  show "x div 262144 = 0 \<longrightarrow> 16 \<le> x div 4096 mod 64"
    using p(1) rp by (simp add: e1)
  show "x div 262144 = 4 \<longrightarrow> x div 4096 mod 64 < 16"
    using p(2) rp unfolding e1 by linarith
qed

section \<open>Python slices with non-negative bounds\<close>

text \<open>
  \<^verbatim>\<open>xs[i:j]\<close> for \<open>0 \<le> i\<close> and \<open>0 \<le> j\<close>: the indices are clamped to the length and
  an empty slice results when \<open>j \<le> i\<close>; nothing is raised.
\<close>

definition py_slice :: "'a list \<Rightarrow> nat \<Rightarrow> nat \<Rightarrow> 'a list" where
  "py_slice xs i j = take (j - i) (drop i xs)"

lemma length_py_slice [simp]: "length (py_slice xs i j) = min (length xs) j - i"
  by (auto simp: py_slice_def)

lemma py_slice_all [simp]: "py_slice xs 0 (length xs) = xs"
  by (simp add: py_slice_def)

lemma py_slice_nth:
  "k < min (length xs) j - i \<Longrightarrow> py_slice xs i j ! k = xs ! (i + k)"
  by (simp add: py_slice_def)

lemma py_slice_take_drop:
  "i \<le> j \<Longrightarrow> j \<le> length xs \<Longrightarrow> take i xs @ py_slice xs i j @ drop j xs = xs"
proof -
  assume ij: "i \<le> j" and j: "j \<le> length xs"
  have "drop j xs = drop (j - i) (drop i xs)"
    using ij by simp
  then have "py_slice xs i j @ drop j xs = drop i xs"
    by (simp only: py_slice_def append_take_drop_id)
  then show ?thesis
    by (simp only: append_take_drop_id)
qed

lemma py_slice_append:
  "i \<le> j \<Longrightarrow> j \<le> k \<Longrightarrow> py_slice xs i j @ py_slice xs j k = py_slice xs i k"
proof -
  assume ij: "i \<le> j" and jk: "j \<le> k"
  have "take (k - i) (drop i xs) = take ((j - i) + (k - j)) (drop i xs)"
    using ij jk by simp
  also have "\<dots> = take (j - i) (drop i xs) @ take (k - j) (drop (j - i) (drop i xs))"
    by (rule take_add)
  also have "drop (j - i) (drop i xs) = drop j xs"
    using ij by simp
  finally show ?thesis by (simp add: py_slice_def)
qed

section \<open>Joining strings and printing numbers\<close>

text \<open>\<^verbatim>\<open>sep.join(xs)\<close>\<close>

fun py_join :: "'a list \<Rightarrow> 'a list list \<Rightarrow> 'a list" where
  "py_join sep [] = []"
| "py_join sep [x] = x"
| "py_join sep (x # y # ys) = x @ sep @ py_join sep (y # ys)"

lemma py_join_Cons: "xs \<noteq> [] \<Longrightarrow> py_join sep (x # xs) = x @ sep @ py_join sep xs"
  by (cases xs) simp_all

lemma length_py_join:
  "length (py_join sep xs) = sum_list (map length xs) + (length xs - 1) * length sep"
  by (induction sep xs rule: py_join.induct) simp_all

text \<open>\<^verbatim>\<open>str(n)\<close> for a non-negative integer: its decimal digits, most significant first.\<close>

definition digit_char :: "nat \<Rightarrow> char" where
  "digit_char d = ''0123456789'' ! d"

fun str_nat :: "nat \<Rightarrow> string" where
  "str_nat n = (if n < 10 then [digit_char n] else str_nat (n div 10) @ [digit_char (n mod 10)])"

declare str_nat.simps [simp del]

definition digit_value :: "char \<Rightarrow> nat" where
  "digit_value c = of_char c - 48"

definition nat_of_str :: "string \<Rightarrow> nat" where
  "nat_of_str s = foldl (\<lambda>acc c. 10 * acc + digit_value c) 0 s"

lemma digit_value_digit_char [simp]: "d < 10 \<Longrightarrow> digit_value (digit_char d) = d"
proof -
  have "\<forall>d<10. digit_value (digit_char d) = d"
    by (simp add: numeral_eq_Suc All_less_Suc digit_value_def digit_char_def)
  then show "d < 10 \<Longrightarrow> digit_value (digit_char d) = d" by simp
qed

lemma str_nat_nonempty [simp]: "str_nat n \<noteq> []"
  by (subst str_nat.simps) simp

lemma nat_of_str_snoc [simp]: "nat_of_str (s @ [c]) = 10 * nat_of_str s + digit_value c"
  by (simp add: nat_of_str_def)

lemma nat_of_str_str_nat [simp]: "nat_of_str (str_nat n) = n"
proof (induction n rule: str_nat.induct)
  case (1 n)
  show ?case
  proof (cases "n < 10")
    case True
    then show ?thesis by (subst str_nat.simps) (simp add: nat_of_str_def)
  next
    case False
    with "1.IH" show ?thesis by (subst str_nat.simps) simp
  qed
qed

lemma str_nat_inj: "str_nat m = str_nat n \<Longrightarrow> m = n"
  by (metis nat_of_str_str_nat)

end
