(* ===== verification/Utf8_Codec.thy ===== *)
theory Utf8_Codec
  imports Utf8_Prelude
begin

text \<open>
  The UTF-8 codec that \<^verbatim>\<open>scan_file\<close> and \<^verbatim>\<open>fix_file\<close> call: \<^verbatim>\<open>content.decode('utf-8')\<close>
  (strict), \<^verbatim>\<open>content.decode('utf-8', errors='replace')\<close> and the encoding done by a
  text file opened with \<^verbatim>\<open>encoding='utf-8'\<close>. The codec is the interpreter's, not the
  repository's, so it is modelled from its documented behaviour: one decoding step
  classifies the bytes at the current position (\<open>utf8_step\<close>), the strict driver stops at
  the first error with its byte range and reason (\<open>decode_from\<close>), the replacing driver
  emits U+FFFD and resumes after the rejected bytes (\<open>decode_replace\<close>).
  The lemmas give the bounds of an error range, the agreement of decoder and encoder in
  both directions, and the facts about the two drivers that the components rely on.
\<close>

section \<open>Decoding errors and decoding steps\<close>

datatype reason = InvalidStartByte | InvalidContinuationByte | UnexpectedEndOfData

record unicode_decode_error =
  ude_start :: nat
  ude_end :: nat
  ude_reason :: reason

text \<open>
  The outcome of looking at the bytes at one position: a code point and the number of
  bytes it took, or one of the three ways to fail. \<open>InvalidContinuation n\<close> rejects the
  first \<open>n\<close> bytes (the lead byte and the continuation bytes accepted so far).
\<close>

datatype step = Decoded codepoint nat | Incomplete | InvalidStart | InvalidContinuation nat

definition is_continuation :: "byte \<Rightarrow> bool" where
  "is_continuation ch \<longleftrightarrow> 0x80 \<le> ch \<and> ch < 0xC0"

definition utf8_step2 :: "byte \<Rightarrow> bytes \<Rightarrow> step" where
  "utf8_step2 ch rest =
     (case rest of
        [] \<Rightarrow> Incomplete
      | ch2 # _ \<Rightarrow>
          if \<not> is_continuation ch2 then InvalidContinuation 1
          else Decoded ((unat ch - 0xC0) * 64 + (unat ch2 - 0x80)) 2)"

definition utf8_step3 :: "byte \<Rightarrow> bytes \<Rightarrow> step" where
  "utf8_step3 ch rest =
     (case rest of
        [] \<Rightarrow> Incomplete
      | [ch2] \<Rightarrow>
          if \<not> is_continuation ch2 \<or> (if ch2 < 0xA0 then ch = 0xE0 else ch = 0xED)
          then InvalidContinuation 1 else Incomplete
      | ch2 # ch3 # _ \<Rightarrow>
          if \<not> is_continuation ch2 then InvalidContinuation 1
          else if ch = 0xE0 \<and> ch2 < 0xA0 then InvalidContinuation 1
          else if ch = 0xED \<and> 0xA0 \<le> ch2 then InvalidContinuation 1
          else if \<not> is_continuation ch3 then InvalidContinuation 2
          else Decoded ((unat ch - 0xE0) * 4096 + (unat ch2 - 0x80) * 64
                        + (unat ch3 - 0x80)) 3)"

definition utf8_step4 :: "byte \<Rightarrow> bytes \<Rightarrow> step" where
  "utf8_step4 ch rest =
     (case rest of
        [] \<Rightarrow> Incomplete
      | [ch2] \<Rightarrow>
          if \<not> is_continuation ch2 \<or> (if ch2 < 0x90 then ch = 0xF0 else ch = 0xF4)
          then InvalidContinuation 1 else Incomplete
      | [ch2, ch3] \<Rightarrow>
          if \<not> is_continuation ch2 \<or> (if ch2 < 0x90 then ch = 0xF0 else ch = 0xF4)
          then InvalidContinuation 1
          else if \<not> is_continuation ch3 then InvalidContinuation 2 else Incomplete
      | ch2 # ch3 # ch4 # _ \<Rightarrow>
          if \<not> is_continuation ch2 then InvalidContinuation 1
          else if ch = 0xF0 \<and> ch2 < 0x90 then InvalidContinuation 1
          else if ch = 0xF4 \<and> 0x90 \<le> ch2 then InvalidContinuation 1
          else if \<not> is_continuation ch3 then InvalidContinuation 2
          else if \<not> is_continuation ch4 then InvalidContinuation 3
          else Decoded ((unat ch - 0xF0) * 262144 + (unat ch2 - 0x80) * 4096
                        + (unat ch3 - 0x80) * 64 + (unat ch4 - 0x80)) 4)"

definition utf8_step :: "bytes \<Rightarrow> step" where
  "utf8_step bs =
     (case bs of
        [] \<Rightarrow> Incomplete
      | ch # rest \<Rightarrow>
          if ch < 0x80 then Decoded (unat ch) 1
          else if ch < 0xE0 then (if ch < 0xC2 then InvalidStart else utf8_step2 ch rest)
          else if ch < 0xF0 then utf8_step3 ch rest
          else if ch < 0xF5 then utf8_step4 ch rest
          else InvalidStart)"

text \<open>
  What a step contributes to the drivers: the number of bytes it covers (for
  \<open>Incomplete\<close> everything up to the end of the input), the reason it reports, and the
  character it yields, U+FFFD standing in for rejected bytes.
\<close>

fun step_len :: "bytes \<Rightarrow> step \<Rightarrow> nat" where
  "step_len bs (Decoded cp n) = n"
| "step_len bs Incomplete = length bs"
| "step_len bs InvalidStart = 1"
| "step_len bs (InvalidContinuation n) = n"

fun step_reason :: "step \<Rightarrow> reason option" where
  "step_reason (Decoded cp n) = None"
| "step_reason Incomplete = Some UnexpectedEndOfData"
| "step_reason InvalidStart = Some InvalidStartByte"
| "step_reason (InvalidContinuation n) = Some InvalidContinuationByte"

definition replacement_character :: codepoint where
  "replacement_character = 0xFFFD"

fun step_char :: "step \<Rightarrow> codepoint" where
  "step_char (Decoded cp n) = cp"
| "step_char st = replacement_character"

subsection \<open>Every step covers at least one byte and stays inside the input\<close>

lemma step2_len:
  "0 < step_len (ch # rest) (utf8_step2 ch rest) \<and>
   step_len (ch # rest) (utf8_step2 ch rest) \<le> Suc (length rest)"
  by (simp add: utf8_step2_def split: list.split)

lemma step3_len:
  "0 < step_len (ch # rest) (utf8_step3 ch rest) \<and>
   step_len (ch # rest) (utf8_step3 ch rest) \<le> Suc (length rest)"
  by (simp add: utf8_step3_def split: list.split)

lemma step4_len:
  "0 < step_len (ch # rest) (utf8_step4 ch rest) \<and>
   step_len (ch # rest) (utf8_step4 ch rest) \<le> Suc (length rest)"
  by (simp add: utf8_step4_def split: list.split)

lemma step_len_bounds:
  "bs \<noteq> [] \<Longrightarrow> 0 < step_len bs (utf8_step bs) \<and> step_len bs (utf8_step bs) \<le> length bs"
  using step2_len step3_len step4_len
  by (cases bs) (simp_all add: utf8_step_def)

lemma step_len_pos [simp]: "bs \<noteq> [] \<Longrightarrow> 0 < step_len bs (utf8_step bs)"
  by (simp add: step_len_bounds)

lemma step_len_le [simp]: "bs \<noteq> [] \<Longrightarrow> step_len bs (utf8_step bs) \<le> length bs"
  by (simp add: step_len_bounds)

lemma drop_step_shorter [simp]:
  "bs \<noteq> [] \<Longrightarrow> length bs - step_len bs (utf8_step bs) < length bs"
  using step_len_bounds [of bs] by simp

section \<open>The two drivers\<close>

text \<open>
  \<^verbatim>\<open>bytes.decode('utf-8')\<close>: decode step by step from byte offset \<open>pos\<close>; the first step
  that fails ends the run with the range of the rejected bytes.
\<close>

function decode_from :: "nat \<Rightarrow> bytes \<Rightarrow> (unicode_decode_error, pystr) result" where
  "decode_from pos bs =
     (if bs = [] then Inr []
      else let st = utf8_step bs in
        case step_reason st of
          Some r \<Rightarrow> Inl \<lparr>ude_start = pos, ude_end = pos + step_len bs st, ude_reason = r\<rparr>
        | None \<Rightarrow>
            (case decode_from (pos + step_len bs st) (drop (step_len bs st) bs) of
               Inl e \<Rightarrow> Inl e
             | Inr s \<Rightarrow> Inr (step_char st # s)))"
  by pat_completeness auto
termination
  by (relation "measure (\<lambda>(pos, bs). length bs)") simp_all

definition decode_utf8 :: "bytes \<Rightarrow> (unicode_decode_error, pystr) result" where
  "decode_utf8 bs = decode_from 0 bs"

text \<open>
  \<^verbatim>\<open>bytes.decode('utf-8', errors='replace')\<close>: a failing step yields U+FFFD and
  decoding resumes right after the bytes it rejected.
\<close>

function decode_replace :: "bytes \<Rightarrow> pystr" where
  "decode_replace bs =
     (if bs = [] then []
      else let st = utf8_step bs in
        step_char st # decode_replace (drop (step_len bs st) bs))"
  by pat_completeness auto
termination
  by (relation "measure length") simp_all

declare decode_from.simps [simp del] decode_replace.simps [simp del]

lemma decode_from_Nil [simp, codec_simps]: "decode_from pos [] = Inr []"
  by (simp add: decode_from.simps)

lemma decode_from_error [codec_simps]:
  "bs \<noteq> [] \<Longrightarrow> step_reason (utf8_step bs) = Some r \<Longrightarrow>
   decode_from pos bs =
     Inl \<lparr>ude_start = pos, ude_end = pos + step_len bs (utf8_step bs), ude_reason = r\<rparr>"
  by (simp add: decode_from.simps [of pos bs])

lemma decode_from_Decoded [codec_simps]:
  "utf8_step bs = Decoded cp n \<Longrightarrow> bs \<noteq> [] \<Longrightarrow>
   decode_from pos bs =
     (case decode_from (pos + n) (drop n bs) of Inl e \<Rightarrow> Inl e | Inr s \<Rightarrow> Inr (cp # s))"
  by (simp add: decode_from.simps [of pos bs] split: sum.split)

lemma decode_replace_Nil [simp, codec_simps]: "decode_replace [] = []"
  by (simp add: decode_replace.simps)

lemma decode_replace_step [codec_simps]:
  "bs \<noteq> [] \<Longrightarrow>
   decode_replace bs =
     step_char (utf8_step bs) # decode_replace (drop (step_len bs (utf8_step bs)) bs)"
  by (simp add: decode_replace.simps [of bs] Let_def)

section \<open>The encoder\<close>

text \<open>
  \<^verbatim>\<open>str.encode('utf-8')\<close>, as a text file opened with \<^verbatim>\<open>encoding='utf-8'\<close> applies it.
  A surrogate code point cannot be encoded and raises \<^verbatim>\<open>UnicodeEncodeError\<close>, whose range
  covers the run of surrogates that starts there.
\<close>

definition is_surrogate :: "codepoint \<Rightarrow> bool" where
  "is_surrogate cp \<longleftrightarrow> 0xD800 \<le> cp \<and> cp \<le> 0xDFFF"

definition is_scalar :: "codepoint \<Rightarrow> bool" where
  "is_scalar cp \<longleftrightarrow> cp < 0xD800 \<or> (0xE000 \<le> cp \<and> cp \<le> 0x10FFFF)"

definition encode_char :: "codepoint \<Rightarrow> bytes option" where
  "encode_char ch =
     (if ch < 0x80 then Some [of_nat ch]
      else if ch < 0x800 then Some [of_nat (0xC0 + ch div 64), of_nat (0x80 + ch mod 64)]
      else if is_surrogate ch then None
      else if ch < 0x10000 then
        Some [of_nat (0xE0 + ch div 4096), of_nat (0x80 + ch div 64 mod 64),
              of_nat (0x80 + ch mod 64)]
      else if ch \<le> 0x10FFFF then
        Some [of_nat (0xF0 + ch div 262144), of_nat (0x80 + ch div 4096 mod 64),
              of_nat (0x80 + ch div 64 mod 64), of_nat (0x80 + ch mod 64)]
      else None)"

record unicode_encode_error =
  uee_start :: nat
  uee_end :: nat

fun encode_from :: "nat \<Rightarrow> pystr \<Rightarrow> (unicode_encode_error, bytes) result" where
  "encode_from pos [] = Inr []"
| "encode_from pos (c # cs) =
     (case encode_char c of
        None \<Rightarrow>
          Inl \<lparr>uee_start = pos, uee_end = Suc pos + length (takeWhile is_surrogate cs)\<rparr>
      | Some bs \<Rightarrow>
          (case encode_from (Suc pos) cs of Inl e \<Rightarrow> Inl e | Inr r \<Rightarrow> Inr (bs @ r)))"

definition utf8_encode :: "pystr \<Rightarrow> (unicode_encode_error, bytes) result" where
  "utf8_encode s = encode_from 0 s"

subsection \<open>The encoder by range\<close>

lemma encode_char_1 [codec_simps]: "cp < 0x80 \<Longrightarrow> encode_char cp = Some [of_nat cp]"
  by (simp add: encode_char_def)

lemma encode_char_2 [codec_simps]:
  "0x80 \<le> cp \<Longrightarrow> cp < 0x800 \<Longrightarrow>
   encode_char cp = Some [of_nat (0xC0 + cp div 64), of_nat (0x80 + cp mod 64)]"
  by (simp add: encode_char_def)

lemma encode_char_3 [codec_simps]:
  "0x800 \<le> cp \<Longrightarrow> cp < 0x10000 \<Longrightarrow> \<not> (0xD800 \<le> cp \<and> cp \<le> 0xDFFF) \<Longrightarrow>
   encode_char cp = Some [of_nat (0xE0 + cp div 4096), of_nat (0x80 + cp div 64 mod 64),
                          of_nat (0x80 + cp mod 64)]"
  by (simp add: encode_char_def is_surrogate_def)

lemma encode_char_4 [codec_simps]:
  "0x10000 \<le> cp \<Longrightarrow> cp \<le> 0x10FFFF \<Longrightarrow>
   encode_char cp = Some [of_nat (0xF0 + cp div 262144), of_nat (0x80 + cp div 4096 mod 64),
                          of_nat (0x80 + cp div 64 mod 64), of_nat (0x80 + cp mod 64)]"
  by (simp add: encode_char_def is_surrogate_def)

lemma is_scalarI:
  "cp \<le> 0x10FFFF \<Longrightarrow> \<not> (0xD800 \<le> cp \<and> cp \<le> 0xDFFF) \<Longrightarrow> is_scalar cp"
  by (auto simp: is_scalar_def)

lemma is_scalar_replacement [simp]: "is_scalar replacement_character"
  by (simp add: is_scalar_def replacement_character_def)

lemma encode_char_Some_iff: "(\<exists>bs. encode_char cp = Some bs) \<longleftrightarrow> is_scalar cp"
  by (auto simp: encode_char_def is_scalar_def is_surrogate_def)

section \<open>A decoded code point re-encodes to the bytes it was read from\<close>

lemma step2_encode:
  assumes "utf8_step2 ch rest = Decoded cp n" "0xC2 \<le> ch" "ch < 0xE0"
  shows "is_scalar cp \<and> encode_char cp = Some (take n (ch # rest))"
proof -
  from assms(1) obtain ch2 tl where rest: "rest = ch2 # tl" and c2: "is_continuation ch2"
    and cp: "cp = (unat ch - 0xC0) * 64 + (unat ch2 - 0x80)" and n: "n = 2"
    by (auto simp: utf8_step2_def split: list.splits if_splits)
  define a b where "a = unat ch - 192" and "b = unat ch2 - 128"
  have ch: "unat ch = 192 + a" "unat ch2 = 128 + b" and ab: "2 \<le> a" "a < 32" "b < 64"
    using assms(2,3) c2 by (auto simp: a_def b_def is_continuation_def byte_nat)
  have cp': "cp = a * 64 + b" by (simp add: cp a_def b_def)
  have r: "128 \<le> cp" "cp < 2048" and d: "cp div 64 = a" "cp mod 64 = b"
    using ab unfolding cp' by simp_all
  have w: "(of_nat (192 + a) :: byte) = ch" "(of_nat (128 + b) :: byte) = ch2"
    by (simp_all flip: ch)
  from r have "is_scalar cp" by (simp add: is_scalar_def)
  with w show ?thesis by (simp add: encode_char_2 [OF r] d rest n)
qed

lemma step3_encode:
  assumes "utf8_step3 ch rest = Decoded cp n" "0xE0 \<le> ch" "ch < 0xF0"
  shows "is_scalar cp \<and> encode_char cp = Some (take n (ch # rest))"
proof -
  from assms(1) obtain ch2 ch3 tl where rest: "rest = ch2 # ch3 # tl"
    and c2: "is_continuation ch2" and c3: "is_continuation ch3"
    and lo: "\<not> (ch = 0xE0 \<and> ch2 < 0xA0)" and hi: "\<not> (ch = 0xED \<and> 0xA0 \<le> ch2)"
    and cp: "cp = (unat ch - 0xE0) * 4096 + (unat ch2 - 0x80) * 64 + (unat ch3 - 0x80)"
    and n: "n = 3"
    by (auto simp: utf8_step3_def split: list.splits if_splits)
  define a b c where "a = unat ch - 224" and "b = unat ch2 - 128" and "c = unat ch3 - 128"
  have ch: "unat ch = 224 + a" "unat ch2 = 128 + b" "unat ch3 = 128 + c"
    and ab: "a < 16" "b < 64" "c < 64" "a = 0 \<longrightarrow> 32 \<le> b" "a = 13 \<longrightarrow> b < 32"
    using assms(2,3) c2 c3 lo hi
    by (auto simp: a_def b_def c_def is_continuation_def byte_nat)
  have cp': "cp = a * 4096 + b * 64 + c" by (simp add: cp a_def b_def c_def)
  have r: "2048 \<le> cp" "cp < 65536" "\<not> (55296 \<le> cp \<and> cp \<le> 57343)"
    using ab unfolding cp' by (rule cp3_range)+
  have d: "cp div 4096 = a" "cp div 64 mod 64 = b" "cp mod 64 = c"
    using ab(2,3) unfolding cp' by (rule cp3_digits)+
  have w: "(of_nat (224 + a) :: byte) = ch" "(of_nat (128 + b) :: byte) = ch2"
    "(of_nat (128 + c) :: byte) = ch3"
    by (simp_all flip: ch)
  from r have "is_scalar cp" by (intro is_scalarI) simp_all
  with w show ?thesis by (simp add: encode_char_3 [OF r] d rest n)
qed

lemma step4_encode:
  assumes "utf8_step4 ch rest = Decoded cp n" "0xF0 \<le> ch" "ch < 0xF5"
  shows "is_scalar cp \<and> encode_char cp = Some (take n (ch # rest))"
proof -
  from assms(1) obtain ch2 ch3 ch4 tl where rest: "rest = ch2 # ch3 # ch4 # tl"
    and c2: "is_continuation ch2" and c3: "is_continuation ch3" and c4: "is_continuation ch4"
    and lo: "\<not> (ch = 0xF0 \<and> ch2 < 0x90)" and hi: "\<not> (ch = 0xF4 \<and> 0x90 \<le> ch2)"
    and cp: "cp = (unat ch - 0xF0) * 262144 + (unat ch2 - 0x80) * 4096
                   + (unat ch3 - 0x80) * 64 + (unat ch4 - 0x80)"
    and n: "n = 4"
    by (auto simp: utf8_step4_def split: list.splits if_splits)
  define a b c d where "a = unat ch - 240" and "b = unat ch2 - 128"
    and "c = unat ch3 - 128" and "d = unat ch4 - 128"
  have ch: "unat ch = 240 + a" "unat ch2 = 128 + b" "unat ch3 = 128 + c" "unat ch4 = 128 + d"
    and ab: "a < 5" "b < 64" "c < 64" "d < 64" "a = 0 \<longrightarrow> 16 \<le> b" "a = 4 \<longrightarrow> b < 16"
    using assms(2,3) c2 c3 c4 lo hi
    by (auto simp: a_def b_def c_def d_def is_continuation_def byte_nat)
  have cp': "cp = a * 262144 + b * 4096 + c * 64 + d"
    by (simp add: cp a_def b_def c_def d_def)
  have r: "65536 \<le> cp" "cp \<le> 1114111"
    using ab unfolding cp' by (rule cp4_range)+
  have dg: "cp div 262144 = a" "cp div 4096 mod 64 = b" "cp div 64 mod 64 = c"
    "cp mod 64 = d"
    using ab(2,3,4) unfolding cp' by (rule cp4_digits)+
  have w: "(of_nat (240 + a) :: byte) = ch" "(of_nat (128 + b) :: byte) = ch2"
    "(of_nat (128 + c) :: byte) = ch3" "(of_nat (128 + d) :: byte) = ch4"
    by (simp_all flip: ch)
  from r have "is_scalar cp" by (intro is_scalarI) simp_all
  with w show ?thesis by (simp add: encode_char_4 [OF r] dg rest n)
qed

lemma step_encode:
  assumes "utf8_step bs = Decoded cp n"
  shows "is_scalar cp \<and> encode_char cp = Some (take n bs)"
proof (cases bs)
  case Nil
  with assms show ?thesis by (simp add: utf8_step_def)
next
  case (Cons ch rest)
  consider "ch < 0x80" | "0xC2 \<le> ch" "ch < 0xE0" | "0xE0 \<le> ch" "ch < 0xF0"
    | "0xF0 \<le> ch" "ch < 0xF5"
    using assms Cons by (auto simp: utf8_step_def split: if_splits)
  then show ?thesis
  proof cases
    case 1
    with assms Cons have "cp = unat ch" "n = 1" by (simp_all add: utf8_step_def)
    moreover from 1 have "unat ch < 128" by (simp add: byte_nat)
    ultimately show ?thesis by (simp add: Cons encode_char_1 is_scalar_def)
  next
    case 2
    with assms Cons have "utf8_step2 ch rest = Decoded cp n"
      by (auto simp: utf8_step_def byte_nat split: if_splits)
    from step2_encode [OF this 2] show ?thesis by (simp add: Cons)
  next
    case 3
    with assms Cons have "utf8_step3 ch rest = Decoded cp n"
      by (auto simp: utf8_step_def byte_nat split: if_splits)
    from step3_encode [OF this 3] show ?thesis by (simp add: Cons)
  next
    case 4
    with assms Cons have "utf8_step4 ch rest = Decoded cp n"
      by (auto simp: utf8_step_def byte_nat split: if_splits)
    from step4_encode [OF this 4] show ?thesis by (simp add: Cons)
  qed
qed

section \<open>Well-formed sequences are accepted\<close>

lemma step1_bytes:
  assumes "unat ch < 128"
  shows "utf8_step (ch # rest) = Decoded (unat ch) 1"
  using assms by (simp add: utf8_step_def byte_nat)

lemma step2_bytes:
  assumes "unat ch = 192 + a" "unat ch2 = 128 + b" "2 \<le> a" "a < 32" "b < 64"
  shows "utf8_step (ch # ch2 # rest) = Decoded (a * 64 + b) 2"
  using assms by (simp add: utf8_step_def utf8_step2_def is_continuation_def byte_nat)

lemma step3_bytes:
  assumes "unat ch = 224 + a" "unat ch2 = 128 + b" "unat ch3 = 128 + c"
    and "a < 16" "b < 64" "c < 64" "a = 0 \<longrightarrow> 32 \<le> b" "a = 13 \<longrightarrow> b < 32"
  shows "utf8_step (ch # ch2 # ch3 # rest) = Decoded (a * 4096 + b * 64 + c) 3"
  using assms by (auto simp: utf8_step_def utf8_step3_def is_continuation_def byte_nat)

lemma step4_bytes:
  assumes "unat ch = 240 + a" "unat ch2 = 128 + b" "unat ch3 = 128 + c" "unat ch4 = 128 + d"
    and "a < 5" "b < 64" "c < 64" "d < 64" "a = 0 \<longrightarrow> 16 \<le> b" "a = 4 \<longrightarrow> b < 16"
  shows "utf8_step (ch # ch2 # ch3 # ch4 # rest)
           = Decoded (a * 262144 + b * 4096 + c * 64 + d) 4"
  using assms by (auto simp: utf8_step_def utf8_step4_def is_continuation_def byte_nat)

section \<open>The bytes of an encoded code point decode to it\<close>

lemma scalar_ranges:
  assumes "is_scalar cp"
  obtains "cp < 0x80" | "0x80 \<le> cp" "cp < 0x800"
    | "0x800 \<le> cp" "cp < 0x10000" "\<not> (0xD800 \<le> cp \<and> cp \<le> 0xDFFF)"
    | "0x10000 \<le> cp" "cp \<le> 0x10FFFF"
  using assms by (cases "cp < 0x80"; cases "cp < 0x800"; cases "cp < 0x10000")
    (auto simp: is_scalar_def)

lemma step2_of_digits:
  assumes "2 \<le> a" "a < 32" "b < 64"
  shows "utf8_step (of_nat (0xC0 + a) # of_nat (0x80 + b) # rest) = Decoded (a * 64 + b) 2"
  by (rule step2_bytes [OF unat_byte_offset unat_byte_offset]) (use assms in simp_all)

lemma step3_of_digits:
  assumes "a < 16" "b < 64" "c < 64" "a = 0 \<longrightarrow> 32 \<le> b" "a = 13 \<longrightarrow> b < 32"
  shows "utf8_step (of_nat (0xE0 + a) # of_nat (0x80 + b) # of_nat (0x80 + c) # rest)
           = Decoded (a * 4096 + b * 64 + c) 3"
  by (rule step3_bytes [OF unat_byte_offset unat_byte_offset unat_byte_offset])
    (use assms in simp_all)

lemma step4_of_digits:
  assumes "a < 5" "b < 64" "c < 64" "d < 64" "a = 0 \<longrightarrow> 16 \<le> b" "a = 4 \<longrightarrow> b < 16"
  shows "utf8_step (of_nat (0xF0 + a) # of_nat (0x80 + b) # of_nat (0x80 + c)
                      # of_nat (0x80 + d) # rest)
           = Decoded (a * 262144 + b * 4096 + c * 64 + d) 4"
  by (rule step4_bytes [OF unat_byte_offset unat_byte_offset unat_byte_offset
        unat_byte_offset]) (use assms in simp_all)

lemma encode_step:
  assumes "encode_char cp = Some e"
  shows "e \<noteq> [] \<and> utf8_step (e @ rest) = Decoded cp (length e)"
proof -
  from assms have "is_scalar cp" using encode_char_Some_iff by blast
  then show ?thesis
  proof (cases rule: scalar_ranges)
    case 1
    with assms have e: "e = [of_nat cp]" by (simp add: encode_char_1)
    from 1 show ?thesis using step1_bytes [of "of_nat cp" rest] by (simp add: e)
  next
    case 2
    note s = cp2_split [OF 2]
    from assms have e: "e = [of_nat (0xC0 + cp div 64), of_nat (0x80 + cp mod 64)]"
      by (simp only: encode_char_2 [OF 2] option.inject)
    have "utf8_step (e @ rest) = Decoded cp 2"
      using step2_of_digits [OF s(1,2,3), of rest] unfolding e append.simps s(4) .
    then show ?thesis by (simp add: e)
  next
    case 3
    note s = cp3_split [OF 3]
    from assms have e: "e = [of_nat (0xE0 + cp div 4096), of_nat (0x80 + cp div 64 mod 64),
                             of_nat (0x80 + cp mod 64)]"
      by (simp only: encode_char_3 [OF 3] option.inject)
    have "utf8_step (e @ rest) = Decoded cp 3"
      using step3_of_digits [OF s(1,2,3,5,6), of rest] unfolding e append.simps s(4) .
    then show ?thesis by (simp add: e)
  next
    case 4
    note s = cp4_split [OF 4]
    from assms have e: "e = [of_nat (0xF0 + cp div 262144), of_nat (0x80 + cp div 4096 mod 64),
                             of_nat (0x80 + cp div 64 mod 64), of_nat (0x80 + cp mod 64)]"
      by (simp only: encode_char_4 [OF 4] option.inject)
    have "utf8_step (e @ rest) = Decoded cp 4"
      using step4_of_digits [OF s(1,2,3,4,6,7), of rest] unfolding e append.simps s(5) .
    then show ?thesis by (simp add: e)
  qed
qed

lemma step_append:
  assumes "utf8_step bs = Decoded cp n"
  shows "utf8_step (bs @ cs) = Decoded cp n"
proof -
  from step_encode [OF assms] have e: "encode_char cp = Some (take n bs)" by simp
  from assms have "bs \<noteq> []" by (auto simp: utf8_step_def)
  with assms have n: "n \<le> length bs" using step_len_bounds [of bs] by simp
  from encode_step [OF e, of "drop n bs @ cs"] n show ?thesis
    by (simp flip: append_assoc)
qed

section \<open>Facts about the strict driver\<close>

lemma step_reason_None_iff:
  "step_reason st = None \<longleftrightarrow> (\<exists>cp n. st = Decoded cp n)"
  by (cases st) simp_all

lemma step_Decoded_len:
  assumes "utf8_step bs = Decoded cp n"
  shows "bs \<noteq> []" "0 < n" "n \<le> length bs"
proof -
  from assms show ne: "bs \<noteq> []" by (auto simp: utf8_step_def)
  from step_len_bounds [OF ne] assms show "0 < n" "n \<le> length bs" by simp_all
qed

text \<open>
  The induction that follows the strict driver: the input is empty, or its first step
  fails, or its first step decodes a code point and the rest is handled inductively.
\<close>

lemma decode_from_induct [case_names Nil Error Decoded]:
  assumes "\<And>pos. P pos []"
    and "\<And>pos bs r. bs \<noteq> [] \<Longrightarrow> step_reason (utf8_step bs) = Some r \<Longrightarrow> P pos bs"
    and "\<And>pos bs cp n. bs \<noteq> [] \<Longrightarrow> utf8_step bs = Decoded cp n \<Longrightarrow> 0 < n \<Longrightarrow>
           n \<le> length bs \<Longrightarrow> P (pos + n) (drop n bs) \<Longrightarrow> P pos bs"
  shows "P pos bs"
proof (induction pos bs rule: decode_from.induct)
  case (1 pos bs)
  show ?case
  proof (cases "bs = []")
    case True
    then show ?thesis by (simp add: assms(1))
  next
    case ne: False
    show ?thesis
    proof (cases "step_reason (utf8_step bs)")
      case (Some r)
      with ne show ?thesis by (rule assms(2))
    next
      case None
      then obtain cp n where st: "utf8_step bs = Decoded cp n"
        by (auto simp: step_reason_None_iff)
      from "1.IH" [OF ne refl None] st have "P (pos + n) (drop n bs)" by simp
      with ne st step_Decoded_len(2,3) [OF st] show ?thesis by (rule assms(3))
    qed
  qed
qed

lemma decode_from_Inr_Decoded:
  assumes "decode_from pos bs = Inr s" "utf8_step bs = Decoded cp n"
  shows "\<exists>s'. decode_from (pos + n) (drop n bs) = Inr s' \<and> s = cp # s'"
  using assms(1)
  by (simp add: decode_from_Decoded [OF assms(2) step_Decoded_len(1) [OF assms(2)]]
      split: sum.splits)

lemma decode_from_bounds:
  "decode_from pos bs = Inl e \<Longrightarrow>
   pos \<le> ude_start e \<and> ude_start e < ude_end e \<and> ude_end e \<le> pos + length bs"
proof (induction pos bs rule: decode_from_induct)
  case (Nil pos)
  then show ?case by simp
next
  case (Error pos bs r)
  with step_len_bounds [of bs] show ?case by (auto simp: decode_from_error)
next
  case (Decoded pos bs cp n)
  then have "decode_from (pos + n) (drop n bs) = Inl e"
    by (simp add: decode_from_Decoded [OF Decoded.hyps(2,1)] split: sum.splits)
  with Decoded.IH Decoded.hyps show ?case by simp
qed

text \<open>The offset only moves the reported range.\<close>

definition shift_error :: "nat \<Rightarrow> unicode_decode_error \<Rightarrow> unicode_decode_error" where
  "shift_error k e = e\<lparr>ude_start := ude_start e + k, ude_end := ude_end e + k\<rparr>"

lemma decode_from_add:
  "decode_from (pos + k) bs = map_sum (shift_error k) id (decode_from pos bs)"
proof (induction pos bs rule: decode_from_induct)
  case (Nil pos)
  show ?case by simp
next
  case (Error pos bs r)
  then show ?case by (simp add: decode_from_error shift_error_def)
next
  case (Decoded pos bs cp n)
  note u1 = decode_from_Decoded [OF Decoded.hyps(2,1), of pos]
  note u2 = decode_from_Decoded [OF Decoded.hyps(2,1), of "pos + k"]
  have e: "pos + k + n = pos + n + k" by simp
  show ?case unfolding u1 u2 e Decoded.IH
    by (cases "decode_from (pos + n) (drop n bs)") simp_all
qed

lemma decode_from_shift:
  "decode_from pos bs = map_sum (shift_error pos) id (decode_from 0 bs)"
  using decode_from_add [of 0 pos bs] by simp

text \<open>A valid prefix is decoded and the driver goes on behind it.\<close>

lemma decode_from_append:
  "decode_from pos bs = Inr s \<Longrightarrow>
   decode_from pos (bs @ cs) =
     (case decode_from (pos + length bs) cs of Inl e \<Rightarrow> Inl e | Inr t \<Rightarrow> Inr (s @ t))"
proof (induction pos bs arbitrary: s rule: decode_from_induct)
  case (Nil pos)
  then show ?case by (simp split: sum.split)
next
  case (Error pos bs r)
  then show ?case by (simp add: decode_from_error)
next
  case (Decoded pos bs cp n)
  from decode_from_Inr_Decoded [OF Decoded.prems Decoded.hyps(2)] obtain s' where
    rec: "decode_from (pos + n) (drop n bs) = Inr s'" and s: "s = cp # s'"
    by blast
  from Decoded.hyps(1) have ne: "bs @ cs \<noteq> []" by simp
  have "decode_from pos (bs @ cs) =
          (case decode_from (pos + n) (drop n bs @ cs) of
             Inl e \<Rightarrow> Inl e | Inr t \<Rightarrow> Inr (cp # t))"
    using Decoded.hyps(4)
    by (simp add: decode_from_Decoded [OF step_append [OF Decoded.hyps(2)] ne])
  moreover have "pos + n + length (drop n bs) = pos + length bs"
    using Decoded.hyps(4) by simp
  ultimately show ?case
    by (simp add: Decoded.IH [OF rec] s split: sum.split)
qed

section \<open>Facts about the replacing driver\<close>

lemma decode_replace_induct [case_names Nil Step]:
  assumes "P []"
    and "\<And>bs. bs \<noteq> [] \<Longrightarrow> P (drop (step_len bs (utf8_step bs)) bs) \<Longrightarrow> P bs"
  shows "P bs"
proof (induction bs rule: decode_replace.induct)
  case (1 bs)
  show ?case
  proof (cases "bs = []")
    case True
    then show ?thesis by (simp add: assms(1))
  next
    case False
    with "1.IH" [OF False refl] show ?thesis by (rule assms(2) [rotated])
  qed
qed

lemma step_char_scalar [simp]: "is_scalar (step_char (utf8_step bs))"
  by (cases "utf8_step bs") (simp_all add: step_encode)

lemma decode_replace_scalar [simp]: "list_all is_scalar (decode_replace bs)"
proof (induction bs rule: decode_replace_induct)
  case Nil
  show ?case by simp
next
  case (Step bs)
  then show ?case by (simp add: decode_replace_step [OF Step.hyps])
qed

text \<open>On a valid prefix the replacing driver agrees with the strict one.\<close>

lemma decode_replace_append:
  "decode_from pos bs = Inr s \<Longrightarrow> decode_replace (bs @ cs) = s @ decode_replace cs"
proof (induction pos bs arbitrary: s rule: decode_from_induct)
  case (Nil pos)
  then show ?case by simp
next
  case (Error pos bs r)
  then show ?case by (simp add: decode_from_error)
next
  case (Decoded pos bs cp n)
  from decode_from_Inr_Decoded [OF Decoded.prems Decoded.hyps(2)] obtain s' where
    rec: "decode_from (pos + n) (drop n bs) = Inr s'" and s: "s = cp # s'"
    by blast
  from Decoded.hyps(1) have ne: "bs @ cs \<noteq> []" by simp
  from Decoded.hyps(4) have "decode_replace (bs @ cs) = cp # decode_replace (drop n bs @ cs)"
    by (simp add: decode_replace_step [OF ne] step_append [OF Decoded.hyps(2)])
  with Decoded.IH [OF rec] show ?case by (simp add: s)
qed

lemma decode_replace_valid: "decode_from pos bs = Inr s \<Longrightarrow> decode_replace bs = s"
  using decode_replace_append [of pos bs s "[]"] by simp

text \<open>Behind the first error the replacing driver restarts on the rest of the input.\<close>

lemma decode_replace_error:
  "bs \<noteq> [] \<Longrightarrow> step_reason (utf8_step bs) = Some r \<Longrightarrow>
   decode_replace bs
     = replacement_character # decode_replace (drop (step_len bs (utf8_step bs)) bs)"
proof -
  assume ne: "bs \<noteq> []" and "step_reason (utf8_step bs) = Some r"
  then have "step_char (utf8_step bs) = replacement_character"
    by (cases "utf8_step bs") simp_all
  then show ?thesis by (simp add: decode_replace_step [OF ne])
qed

section \<open>Facts about the encoder\<close>

lemma encode_from_Cons_Inr:
  "encode_from pos (c # s) = Inr bs \<longleftrightarrow>
   (\<exists>e r. encode_char c = Some e \<and> encode_from (Suc pos) s = Inr r \<and> bs = e @ r)"
  by (auto split: option.splits sum.splits)

lemma encode_from_scalar_iff:
  "(\<exists>bs. encode_from pos s = Inr bs) \<longleftrightarrow> list_all is_scalar s"
proof (induction s arbitrary: pos)
  case Nil
  show ?case by simp
next
  case (Cons c s)
  have "(\<exists>bs. encode_from pos (c # s) = Inr bs)
          \<longleftrightarrow> (\<exists>e. encode_char c = Some e) \<and> (\<exists>r. encode_from (Suc pos) s = Inr r)"
    unfolding encode_from_Cons_Inr by blast
  then show ?case by (simp add: Cons.IH encode_char_Some_iff)
qed

lemma encode_from_pos: "encode_from pos s = Inr bs \<Longrightarrow> encode_from pos' s = Inr bs"
proof (induction s arbitrary: pos pos' bs)
  case Nil
  then show ?case by simp
next
  case (Cons c s)
  from Cons.prems obtain e r where e: "encode_char c = Some e"
    and r: "encode_from (Suc pos) s = Inr r" and bs: "bs = e @ r"
    unfolding encode_from_Cons_Inr by blast
  from Cons.IH [OF r, of "Suc pos'"] e show ?case by (simp add: bs)
qed

lemma encode_from_append:
  "encode_from pos s = Inr bs \<Longrightarrow> encode_from pos' t = Inr cs \<Longrightarrow>
   encode_from pos (s @ t) = Inr (bs @ cs)"
proof (induction s arbitrary: pos bs)
  case Nil
  then show ?case by (simp add: encode_from_pos [of pos' t cs])
next
  case (Cons c s)
  from Cons.prems(1) obtain e r where e: "encode_char c = Some e"
    and r: "encode_from (Suc pos) s = Inr r" and bs: "bs = e @ r"
    unfolding encode_from_Cons_Inr by blast
  from Cons.IH [OF r Cons.prems(2)] e show ?case by (simp add: bs)
qed

text \<open>
  Only the code points below U+0080 produce bytes below \<open>0x80\<close>: every byte of a longer
  sequence has its high bit set.
\<close>

lemma unat_byte_high: "128 \<le> k \<Longrightarrow> n < 256 - k \<Longrightarrow> 128 \<le> unat (of_nat (k + n) :: byte)"
  using unat_byte_offset [of n k] by simp

lemma encode_char_high:
  assumes "encode_char cp = Some e" and "0x80 \<le> cp"
  shows "list_all (\<lambda>b. 128 \<le> unat b) e"
proof -
  from assms(1) have "is_scalar cp" using encode_char_Some_iff by blast
  then show ?thesis
  proof (cases rule: scalar_ranges)
    case 1
    with assms(2) show ?thesis by simp
  next
    case 2
    then have "cp div 64 < 32" by (intro less_mult_imp_div_less) simp
    then have "128 \<le> unat (of_nat (0xC0 + cp div 64) :: byte)"
      "128 \<le> unat (of_nat (0x80 + cp mod 64) :: byte)"
      by (intro unat_byte_high; simp)+
    with assms(1) show ?thesis unfolding encode_char_2 [OF 2] by auto
  next
    case 3
    then have "cp div 4096 < 16" by (intro less_mult_imp_div_less) simp
    then have "128 \<le> unat (of_nat (0xE0 + cp div 4096) :: byte)"
      "128 \<le> unat (of_nat (0x80 + cp div 64 mod 64) :: byte)"
      "128 \<le> unat (of_nat (0x80 + cp mod 64) :: byte)"
      by (intro unat_byte_high; simp)+
    with assms(1) show ?thesis unfolding encode_char_3 [OF 3] by auto
  next
    case 4
    then have "cp div 262144 < 5" by (intro less_mult_imp_div_less) simp
    then have "128 \<le> unat (of_nat (0xF0 + cp div 262144) :: byte)"
      "128 \<le> unat (of_nat (0x80 + cp div 4096 mod 64) :: byte)"
      "128 \<le> unat (of_nat (0x80 + cp div 64 mod 64) :: byte)"
      "128 \<le> unat (of_nat (0x80 + cp mod 64) :: byte)"
      by (intro unat_byte_high; simp)+
    with assms(1) show ?thesis unfolding encode_char_4 [OF 4] by auto
  qed
qed

lemma encode_char_ascii:
  assumes "encode_char cp = Some e" and "b \<in> set e" and "unat b < 128"
  shows "cp < 0x80 \<and> e = [b] \<and> unat b = cp"
proof (cases "cp < 0x80")
  case True
  with assms show ?thesis by (auto simp: encode_char_1)
next
  case False
  with encode_char_high [OF assms(1)] assms(2,3) show ?thesis
    by (auto simp: list_all_iff)
qed

section \<open>Decoder and encoder are inverse to each other\<close>

lemma decode_encode_from:
  "encode_from p s = Inr bs \<Longrightarrow> decode_from pos bs = Inr s"
proof (induction s arbitrary: p pos bs)
  case Nil
  then show ?case by simp
next
  case (Cons c s)
  from Cons.prems obtain e r where e: "encode_char c = Some e"
    and r: "encode_from (Suc p) s = Inr r" and bs: "bs = e @ r"
    unfolding encode_from_Cons_Inr by blast
  from encode_step [OF e, of r] have ne: "e @ r \<noteq> []"
    and st: "utf8_step (e @ r) = Decoded c (length e)"
    by simp_all
  show ?case
    by (simp add: bs decode_from_Decoded [OF st ne] Cons.IH [OF r])
qed

lemma encode_decode_from:
  "decode_from pos bs = Inr s \<Longrightarrow> encode_from p s = Inr bs"
proof (induction pos bs arbitrary: s p rule: decode_from_induct)
  case (Nil pos)
  then show ?case by auto
next
  case (Error pos bs r)
  then show ?case by (simp add: decode_from_error)
next
  case (Decoded pos bs cp n)
  from decode_from_Inr_Decoded [OF Decoded.prems Decoded.hyps(2)] obtain s' where
    rec: "decode_from (pos + n) (drop n bs) = Inr s'" and s: "s = cp # s'"
    by blast
  from step_encode [OF Decoded.hyps(2)] have "encode_char cp = Some (take n bs)" by simp
  with Decoded.IH [OF rec, of "Suc p"] show ?case by (simp add: s)
qed

lemma decode_utf8_iff_encode: "decode_utf8 bs = Inr s \<longleftrightarrow> utf8_encode s = Inr bs"
  unfolding decode_utf8_def utf8_encode_def
  by (rule iffI) (erule encode_decode_from, erule decode_encode_from)

lemma utf8_encode_replace: "\<exists>bs'. utf8_encode (decode_replace bs) = Inr bs'"
  unfolding utf8_encode_def by (simp add: encode_from_scalar_iff)

section \<open>The first error and the prefixes of the input\<close>

lemma step_take:
  assumes "utf8_step bs = Decoded cp n"
  shows "utf8_step (take n bs @ rest) = Decoded cp n"
proof -
  from step_encode [OF assms] have e: "encode_char cp = Some (take n bs)" by simp
  from encode_step [OF e, of rest] step_Decoded_len(3) [OF assms] show ?thesis by simp
qed

lemma step_prefix_Decoded:
  assumes "utf8_step bs = Decoded cp n" "n \<le> k"
  shows "utf8_step (take k bs) = Decoded cp n"
proof -
  from assms(2) have "take k bs = take (n + (k - n)) bs" by simp
  also have "\<dots> = take n bs @ take (k - n) (drop n bs)" by (rule take_add)
  finally show ?thesis by (simp only: step_take [OF assms(1)])
qed

lemma step_prefix_error:
  assumes "step_reason (utf8_step bs) = Some r"
  shows "step_reason (utf8_step (take k bs)) \<noteq> None"
proof
  assume "step_reason (utf8_step (take k bs)) = None"
  then obtain cp n where "utf8_step (take k bs) = Decoded cp n"
    by (auto simp: step_reason_None_iff)
  from step_append [OF this, of "drop k bs"] assms show False by simp
qed

text \<open>The bytes before the first error decode without error.\<close>

lemma decode_from_error_prefix:
  "decode_from pos bs = Inl e \<Longrightarrow> \<exists>s. decode_from pos (take (ude_start e - pos) bs) = Inr s"
proof (induction pos bs rule: decode_from_induct)
  case (Nil pos)
  then show ?case by simp
next
  case (Error pos bs r)
  then show ?case by (auto simp: decode_from_error)
next
  case (Decoded pos bs cp n)
  from Decoded.prems have rec: "decode_from (pos + n) (drop n bs) = Inl e"
    by (simp add: decode_from_Decoded [OF Decoded.hyps(2,1)] split: sum.splits)
  from decode_from_bounds [OF rec] have le: "n \<le> ude_start e - pos" by linarith
  from Decoded.IH [OF rec] obtain s where
    s: "decode_from (pos + n) (take (ude_start e - (pos + n)) (drop n bs)) = Inr s" by blast
  let ?p = "take (ude_start e - pos) bs"
  from Decoded.hyps(1,3) le have ne: "?p \<noteq> []" by (cases bs) auto
  have dr: "drop n ?p = take (ude_start e - (pos + n)) (drop n bs)"
    by (simp add: drop_take)
  show ?case
    by (simp add: decode_from_Decoded [OF step_prefix_Decoded [OF Decoded.hyps(2) le] ne] dr s)
qed

text \<open>Cutting the input anywhere behind the start of the first error leaves that start.\<close>

lemma decode_from_error_stable:
  "decode_from pos bs = Inl e \<Longrightarrow> ude_start e - pos < k \<Longrightarrow>
   \<exists>e'. decode_from pos (take k bs) = Inl e' \<and> ude_start e' = ude_start e"
proof (induction pos bs arbitrary: k rule: decode_from_induct)
  case (Nil pos)
  then show ?case by simp
next
  case (Error pos bs r)
  from Error.prems(2) Error.hyps(1) have ne: "take k bs \<noteq> []" by (cases bs) auto
  from step_prefix_error [OF Error.hyps(2), of k] obtain r' where
    "step_reason (utf8_step (take k bs)) = Some r'" by blast
  from decode_from_error [OF ne this] Error.prems(1) Error.hyps show ?case
    by (auto simp: decode_from_error)
next
  case (Decoded pos bs cp n)
  from Decoded.prems(1) have rec: "decode_from (pos + n) (drop n bs) = Inl e"
    by (simp add: decode_from_Decoded [OF Decoded.hyps(2,1)] split: sum.splits)
  from decode_from_bounds [OF rec] Decoded.prems(2)
  have le: "n \<le> k" and lt: "ude_start e - (pos + n) < k - n" by linarith+
  from Decoded.IH [OF rec lt] obtain e' where
    e': "decode_from (pos + n) (take (k - n) (drop n bs)) = Inl e'"
    and st: "ude_start e' = ude_start e" by blast
  from Decoded.hyps(1,3) le have ne: "take k bs \<noteq> []" by (cases bs) auto
  have dr: "drop n (take k bs) = take (k - n) (drop n bs)"
    by (simp add: drop_take)
  show ?case
    by (simp add: decode_from_Decoded [OF step_prefix_Decoded [OF Decoded.hyps(2) le] ne]
        dr e' st)
qed

text \<open>
  The replacing driver copies what precedes the first error, puts one U+FFFD for the
  rejected range and starts again behind it.
\<close>

lemma decode_replace_first_error:
  "decode_from pos bs = Inl e \<Longrightarrow> decode_from pos (take (ude_start e - pos) bs) = Inr s \<Longrightarrow>
   decode_replace bs = s @ replacement_character # decode_replace (drop (ude_end e - pos) bs)"
proof (induction pos bs arbitrary: s rule: decode_from_induct)
  case (Nil pos)
  then show ?case by simp
next
  case (Error pos bs r)
  from Error.prems Error.hyps show ?case
    by (auto simp: decode_from_error decode_replace_error)
next
  case (Decoded pos bs cp n)
  from Decoded.prems(1) have rec: "decode_from (pos + n) (drop n bs) = Inl e"
    by (simp add: decode_from_Decoded [OF Decoded.hyps(2,1)] split: sum.splits)
  from decode_from_bounds [OF rec] have le: "n \<le> ude_start e - pos"
    and le2: "n \<le> ude_end e - pos" by linarith+
  let ?p = "take (ude_start e - pos) bs"
  from Decoded.hyps(1,3) le have ne: "?p \<noteq> []" by (cases bs) auto
  have dr: "drop n ?p = take (ude_start e - (pos + n)) (drop n bs)"
    by (simp add: drop_take)
  from decode_from_Inr_Decoded [OF Decoded.prems(2) step_prefix_Decoded [OF Decoded.hyps(2) le]]
  obtain s' where s': "decode_from (pos + n) (take (ude_start e - (pos + n)) (drop n bs)) = Inr s'"
    and s: "s = cp # s'" unfolding dr by blast
  from le2 have "ude_end e - (pos + n) + n = ude_end e - pos" by simp
  with Decoded.IH [OF rec s'] have
    "decode_replace (drop n bs)
       = s' @ replacement_character # decode_replace (drop (ude_end e - pos) bs)"
    by simp
  then show ?case
    by (simp add: decode_replace_step [OF Decoded.hyps(1)] Decoded.hyps(2) s)
qed

section \<open>Evaluating the codec on concrete bytes\<close>

text \<open>
  The drivers are taken out of the simpset above; on a closed byte list the equations
  below unfold them again, the guard \<open>bs = []\<close> being decided before either branch is
  looked at.
\<close>

lemmas codec_eval =
  decode_utf8_def decode_from.simps decode_replace.simps utf8_encode_def
  utf8_step_def utf8_step2_def utf8_step3_def utf8_step4_def is_continuation_def
  encode_char_def is_surrogate_def replacement_character_def Let_def

text \<open>
  Two inputs used throughout: the bytes \<^verbatim>\<open>48 65 6c 6c 6f ff 6f\<close> (a stray \<^verbatim>\<open>ff\<close> in
  \<^verbatim>\<open>Hello o\<close>), and \<^verbatim>\<open>41 e2 82\<close> (an \<^verbatim>\<open>A\<close> followed by a euro sign cut off after two of
  its three bytes).
\<close>

definition hello_ff :: bytes where
  "hello_ff = [0x48, 0x65, 0x6c, 0x6c, 0x6f, 0xff, 0x6f]"

definition euro_cut :: bytes where
  "euro_cut = [0x41, 0xe2, 0x82]"

lemma decode_hello_ff:
  "decode_utf8 hello_ff = Inl \<lparr>ude_start = 5, ude_end = 6, ude_reason = InvalidStartByte\<rparr>"
  by (simp add: hello_ff_def codec_eval)

lemma decode_euro_cut:
  "decode_utf8 euro_cut = Inl \<lparr>ude_start = 1, ude_end = 3, ude_reason = UnexpectedEndOfData\<rparr>"
  by (simp add: euro_cut_def codec_eval)

lemma decode_replace_hello_ff:
  "decode_replace hello_ff = [0x48, 0x65, 0x6c, 0x6c, 0x6f, 0xFFFD, 0x6f]"
  by (simp add: hello_ff_def codec_eval)

lemma decode_replace_euro_cut: "decode_replace euro_cut = [0x41, 0xFFFD]"
  by (simp add: euro_cut_def codec_eval)

section \<open>Properties of the codec\<close>

text \<open>
  C11. When strict decoding fails, the reported range is a non-empty range of byte
  offsets inside the buffer: \<open>start < end \<le> length\<close>.
\<close>

theorem decode_utf8_error_range:
  "decode_utf8 bs = Inl e \<Longrightarrow> ude_start e < ude_end e \<and> ude_end e \<le> length bs"
  using decode_from_bounds [of 0 bs e] by (simp add: decode_utf8_def)

theorem decode_utf8_error_range_witness:
  "decode_utf8 euro_cut = Inl \<lparr>ude_start = 1, ude_end = 3, ude_reason = UnexpectedEndOfData\<rparr>
   \<and> (1::nat) < 3 \<and> 3 \<le> length euro_cut"
  using decode_utf8_error_range [OF decode_euro_cut] decode_euro_cut by simp

text \<open>
  C3. The error that strict decoding reports is the first one: the bytes before its
  start decode without error, and every prefix of the buffer that reaches beyond its
  start fails with the same start.
\<close>

theorem decode_utf8_first_error:
  assumes "decode_utf8 bs = Inl e"
  shows "(\<exists>s. decode_utf8 (take (ude_start e) bs) = Inr s) \<and>
         (\<forall>k>ude_start e. \<exists>e'. decode_utf8 (take k bs) = Inl e' \<and> ude_start e' = ude_start e)"
  using assms decode_from_error_prefix [of 0 bs e] decode_from_error_stable [of 0 bs e]
  by (simp add: decode_utf8_def)

theorem decode_utf8_first_error_witness:
  "decode_utf8 hello_ff = Inl \<lparr>ude_start = 5, ude_end = 6, ude_reason = InvalidStartByte\<rparr>
   \<and> (\<exists>s. decode_utf8 (take 5 hello_ff) = Inr s)
   \<and> (\<exists>e'. decode_utf8 (take 6 hello_ff) = Inl e' \<and> ude_start e' = 5)"
  using decode_utf8_first_error [OF decode_hello_ff] decode_hello_ff by simp

text \<open>
  C7. Encoding and strict decoding are inverse to each other: a byte buffer decodes to
  a string exactly when the string encodes to the buffer. In particular the decoder
  accepts nothing but shortest-form encodings of Unicode scalar values.
\<close>

theorem decode_utf8_encode_inverse:
  "decode_utf8 bs = Inr s \<longleftrightarrow> utf8_encode s = Inr bs"
  by (rule decode_utf8_iff_encode)

text \<open>
  C12. Under \<^verbatim>\<open>errors='replace'\<close> the bytes before the first error are decoded as they are,
  the rejected range yields exactly one U+FFFD, and decoding starts again behind it.
\<close>

theorem decode_replace_at_first_error:
  assumes "decode_utf8 bs = Inl e"
  shows "\<exists>s. decode_utf8 (take (ude_start e) bs) = Inr s \<and>
             decode_replace bs = s @ replacement_character # decode_replace (drop (ude_end e) bs)"
proof -
  from assms have e: "decode_from 0 bs = Inl e" by (simp add: decode_utf8_def)
  from decode_from_error_prefix [OF e] obtain s where
    s: "decode_from 0 (take (ude_start e - 0) bs) = Inr s" by blast
  from decode_replace_first_error [OF e s] s show ?thesis
    by (auto simp: decode_utf8_def)
qed

theorem decode_replace_at_first_error_witness:
  "decode_utf8 hello_ff = Inl \<lparr>ude_start = 5, ude_end = 6, ude_reason = InvalidStartByte\<rparr>
   \<and> (\<exists>s. decode_utf8 (take 5 hello_ff) = Inr s \<and>
            decode_replace hello_ff = s @ replacement_character # decode_replace (drop 6 hello_ff))"
  using decode_replace_at_first_error [OF decode_hello_ff] decode_hello_ff by simp

text \<open>
  C28. The text produced under \<^verbatim>\<open>errors='replace'\<close> consists of Unicode scalar values
  only, so encoding it again never raises \<^verbatim>\<open>UnicodeEncodeError\<close>; and the bytes so obtained
  decode, strictly, to that same text.
\<close>

theorem decode_replace_encodable:
  "\<exists>r. utf8_encode (decode_replace bs) = Inr r \<and> decode_utf8 r = Inr (decode_replace bs)"
  using utf8_encode_replace [of bs] by (auto simp: decode_utf8_iff_encode)

text \<open>
  C29. The encoder fails exactly on strings that contain a code point which is not a
  Unicode scalar value (a surrogate, or a number beyond U+10FFFF).
\<close>

theorem utf8_encode_fails_iff:
  "(\<exists>e. utf8_encode s = Inl e) \<longleftrightarrow> \<not> list_all is_scalar s"
proof -
  have "(\<exists>e. utf8_encode s = Inl e) \<longleftrightarrow> \<not> (\<exists>bs. utf8_encode s = Inr bs)"
    by (cases "utf8_encode s") simp_all
  then show ?thesis by (simp add: utf8_encode_def encode_from_scalar_iff)
qed

text \<open>
  C40. The replacing decoder makes progress: every character it yields accounts for at
  least one byte of the input, so the text has at most as many characters as the buffer
  has bytes, and it is empty only for the empty buffer.
\<close>

theorem decode_replace_length:
  "length (decode_replace bs) \<le> length bs \<and> (decode_replace bs = [] \<longleftrightarrow> bs = [])"
proof (induction bs rule: decode_replace_induct)
  case Nil
  show ?case by simp
next
  case (Step bs)
  define n where "n = step_len bs (utf8_step bs)"
  from step_len_bounds [OF Step.hyps] have n: "0 < n" "n \<le> length bs"
    by (simp_all add: n_def)
  from Step.IH have "length (decode_replace (drop n bs)) \<le> length bs - n"
    by (simp add: n_def)
  with n have "Suc (length (decode_replace (drop n bs))) \<le> length bs" by linarith
  with Step.hyps show ?case by (simp add: decode_replace_step [OF Step.hyps] n_def)
qed

end
