(* ===== verification/File_System.thy ===== *)
theory File_System
  imports Utf8_Codec
begin

text \<open>
  The part of the operating system that \<^verbatim>\<open>src/fix_utf8.py\<close> talks to: files with their
  bytes, and the ways in which opening, reading and writing them can fail. The program
  itself has no file-system code; this theory is the stage on which \<^verbatim>\<open>scan_file\<close>,
  \<^verbatim>\<open>fix_file\<close> and \<^verbatim>\<open>scan_directory\<close> act. The state is passed explicitly; an operation
  that can raise returns a sum, and a write returns the new state also when it fails,
  because a file opened for writing is truncated before the first byte is written.
\<close>

section \<open>State\<close>

record os_error =
  os_errno :: nat
  os_message :: string

text \<open>
  How a write to a path goes wrong: \<open>OpenFault\<close> when \<^verbatim>\<open>open\<close> raises (nothing on disk
  changes), \<open>WriteFault e k\<close> when the file was opened, hence created or truncated, and
  \<^verbatim>\<open>write\<close> raises after \<open>k\<close> bytes reached the disk.
\<close>

datatype write_fault = OpenFault os_error | WriteFault os_error nat

record file_system =
  fs_files :: "path \<rightharpoonup> bytes"
  fs_read_fault :: "path \<rightharpoonup> os_error"
  fs_absent :: "path \<Rightarrow> os_error"
  fs_write_fault :: "path \<rightharpoonup> write_fault"
  fs_linesep :: pystr

section \<open>Operations\<close>

text \<open>\<^verbatim>\<open>with open(path, 'rb') as f: content = f.read()\<close>\<close>

definition read_file :: "file_system \<Rightarrow> path \<Rightarrow> (os_error, bytes) result" where
  "read_file fs p =
     (case fs_files fs p of
        None \<Rightarrow> Inl (fs_absent fs p)
      | Some content \<Rightarrow>
          (case fs_read_fault fs p of Some e \<Rightarrow> Inl e | None \<Rightarrow> Inr content))"

text \<open>\<^verbatim>\<open>os.path.getsize(path)\<close>\<close>

definition getsize :: "file_system \<Rightarrow> path \<Rightarrow> (os_error, nat) result" where
  "getsize fs p =
     (case fs_files fs p of None \<Rightarrow> Inl (fs_absent fs p) | Some content \<Rightarrow> Inr (length content))"

definition put_file :: "file_system \<Rightarrow> path \<Rightarrow> bytes \<Rightarrow> file_system" where
  "put_file fs p data = fs\<lparr>fs_files := (fs_files fs)(p \<mapsto> data)\<rparr>"

text \<open>\<^verbatim>\<open>with open(path, 'wb') as f: f.write(data)\<close>\<close>

definition write_file :: "file_system \<Rightarrow> path \<Rightarrow> bytes \<Rightarrow> (os_error, unit) result \<times> file_system"
  where
  "write_file fs p data =
     (case fs_write_fault fs p of
        None \<Rightarrow> (Inr (), put_file fs p data)
      | Some (OpenFault e) \<Rightarrow> (Inl e, fs)
      | Some (WriteFault e k) \<Rightarrow> (Inl e, put_file fs p (take k data)))"

text \<open>
  Writing to a text file translates every \<^verbatim>\<open>'\n'\<close> into \<^verbatim>\<open>os.linesep\<close> (the default
  \<^verbatim>\<open>newline=None\<close>) before the text is encoded.
\<close>

definition translate_newlines :: "pystr \<Rightarrow> pystr \<Rightarrow> pystr" where
  "translate_newlines linesep s = concat (map (\<lambda>c. if c = 10 then linesep else [c]) s)"

datatype write_error = WriteOSError os_error | WriteEncodeError unicode_encode_error

text \<open>
  \<^verbatim>\<open>with open(path, 'w', encoding='utf-8') as f: f.write(text)\<close>. The file is opened, and
  thereby emptied, before the text is encoded: an encoding error leaves it empty.
\<close>

definition write_text :: "file_system \<Rightarrow> path \<Rightarrow> pystr \<Rightarrow> (write_error, unit) result \<times> file_system"
  where
  "write_text fs p s =
     (case fs_write_fault fs p of
        Some (OpenFault e) \<Rightarrow> (Inl (WriteOSError e), fs)
      | fault \<Rightarrow>
          (case utf8_encode (translate_newlines (fs_linesep fs) s) of
             Inl ee \<Rightarrow> (Inl (WriteEncodeError ee), put_file fs p [])
           | Inr data \<Rightarrow>
               (case fault of
                  Some (WriteFault e k) \<Rightarrow> (Inl (WriteOSError e), put_file fs p (take k data))
                | _ \<Rightarrow> (Inr (), put_file fs p data))))"

section \<open>Frame and lookup laws\<close>

lemma put_file_same [simp, fs_simps]: "fs_files (put_file fs p data) p = Some data"
  by (simp add: put_file_def)

lemma put_file_other [simp, fs_simps]:
  "q \<noteq> p \<Longrightarrow> fs_files (put_file fs p data) q = fs_files fs q"
  by (simp add: put_file_def)

lemma put_file_env [simp, fs_simps]:
  "fs_read_fault (put_file fs p data) = fs_read_fault fs"
  "fs_absent (put_file fs p data) = fs_absent fs"
  "fs_write_fault (put_file fs p data) = fs_write_fault fs"
  "fs_linesep (put_file fs p data) = fs_linesep fs"
  by (simp_all add: put_file_def)

lemma read_file_put_other [simp, fs_simps]:
  "q \<noteq> p \<Longrightarrow> read_file (put_file fs p data) q = read_file fs q"
  by (simp add: read_file_def split: option.split)

lemma write_file_cases:
  obtains (ok) "fs_write_fault fs p = None" "write_file fs p data = (Inr (), put_file fs p data)"
  | (open_fault) e where "fs_write_fault fs p = Some (OpenFault e)"
      "write_file fs p data = (Inl e, fs)"
  | (write_fault) e k where "fs_write_fault fs p = Some (WriteFault e k)"
      "write_file fs p data = (Inl e, put_file fs p (take k data))"
  by (cases "fs_write_fault fs p"; simp add: write_file_def split: write_fault.splits)
    (metis write_fault.exhaust)

lemma write_file_other [fs_simps]:
  "q \<noteq> p \<Longrightarrow> fs_files (snd (write_file fs p data)) q = fs_files fs q"
  by (cases fs p data rule: write_file_cases) simp_all

lemma write_file_env [simp, fs_simps]:
  "fs_read_fault (snd (write_file fs p data)) = fs_read_fault fs"
  "fs_absent (snd (write_file fs p data)) = fs_absent fs"
  "fs_write_fault (snd (write_file fs p data)) = fs_write_fault fs"
  "fs_linesep (snd (write_file fs p data)) = fs_linesep fs"
  by (cases fs p data rule: write_file_cases; simp)+

lemma write_file_ok_iff:
  "fst (write_file fs p data) = Inr () \<longleftrightarrow> fs_write_fault fs p = None"
  by (cases fs p data rule: write_file_cases) simp_all

lemma write_file_failed_open:
  "fs_write_fault fs p = Some (OpenFault e) \<Longrightarrow> snd (write_file fs p data) = fs"
  by (simp add: write_file_def)

lemma write_text_other [fs_simps]:
  "q \<noteq> p \<Longrightarrow> fs_files (snd (write_text fs p s)) q = fs_files fs q"
  by (simp add: write_text_def split: option.splits write_fault.splits sum.splits)

lemma write_text_env [simp, fs_simps]:
  "fs_read_fault (snd (write_text fs p s)) = fs_read_fault fs"
  "fs_absent (snd (write_text fs p s)) = fs_absent fs"
  "fs_write_fault (snd (write_text fs p s)) = fs_write_fault fs"
  "fs_linesep (snd (write_text fs p s)) = fs_linesep fs"
  by (simp_all add: write_text_def split: option.splits write_fault.splits sum.splits)

lemma write_text_ok:
  "fs_write_fault fs p = None \<Longrightarrow>
   utf8_encode (translate_newlines (fs_linesep fs) s) = Inr data \<Longrightarrow>
   write_text fs p s = (Inr (), put_file fs p data)"
  by (simp add: write_text_def)

lemma translate_newlines_posix [simp]: "translate_newlines [10] s = s"
  by (induction s) (simp_all add: translate_newlines_def)

lemma translate_newlines_append [simp]:
  "translate_newlines l (s @ t) = translate_newlines l s @ translate_newlines l t"
  by (simp add: translate_newlines_def)

lemma read_file_Inr_iff:
  "read_file fs p = Inr content \<longleftrightarrow> fs_files fs p = Some content \<and> fs_read_fault fs p = None"
  by (simp add: read_file_def split: option.splits)

lemma getsize_Inr_iff: "getsize fs p = Inr n \<longleftrightarrow> (\<exists>content. fs_files fs p = Some content \<and> n = length content)"
  by (auto simp: getsize_def split: option.splits)

section \<open>A file system without faults\<close>

text \<open>
  The environment of the examples: a POSIX system (\<^verbatim>\<open>os.linesep\<close> is \<^verbatim>\<open>'\n'\<close>) on which
  every existing file can be read and every path can be written, and opening a file
  that does not exist raises \<^verbatim>\<open>FileNotFoundError\<close>.
\<close>

definition no_such_file :: "path \<Rightarrow> os_error" where
  "no_such_file p =
     \<lparr>os_errno = 2,
      os_message = ''[Errno 2] No such file or directory: '' @ [CHR 0x27] @ p @ [CHR 0x27]\<rparr>"

definition posix_fs :: "(path \<rightharpoonup> bytes) \<Rightarrow> file_system" where
  "posix_fs files =
     \<lparr>fs_files = files, fs_read_fault = Map.empty, fs_absent = no_such_file,
      fs_write_fault = Map.empty, fs_linesep = [10]\<rparr>"

lemma posix_fs_sel [simp]:
  "fs_files (posix_fs files) = files"
  "fs_read_fault (posix_fs files) = Map.empty"
  "fs_absent (posix_fs files) = no_such_file"
  "fs_write_fault (posix_fs files) = Map.empty"
  "fs_linesep (posix_fs files) = [10]"
  by (simp_all add: posix_fs_def)

lemma put_file_posix [simp]: "put_file (posix_fs files) p data = posix_fs (files(p \<mapsto> data))"
  by (simp add: put_file_def posix_fs_def)

lemma read_file_posix:
  "read_file (posix_fs files) p = (case files p of None \<Rightarrow> Inl (no_such_file p) | Some c \<Rightarrow> Inr c)"
  by (simp add: read_file_def split: option.splits)

lemma write_file_posix [simp]:
  "write_file (posix_fs files) p data = (Inr (), posix_fs (files(p \<mapsto> data)))"
  by (simp add: write_file_def)

end
