(* ===== verification/Scan_File.thy ===== *)
theory Scan_File
  imports File_System
begin

text \<open>
  \<^verbatim>\<open>scan_file\<close> (lines 6-33 of \<^verbatim>\<open>src/fix_utf8.py\<close>): read a file, try to decode it, and on
  a \<^verbatim>\<open>UnicodeDecodeError\<close> return the error text, the offset of the first rejected byte
  and a hex dump of the window of 20 bytes around the rejected range. Any other
  exception, in practice the failure to open or read the file, becomes an issue that
  carries only a message. The lemmas give the bounds of the window, the shape of the
  dump and a function that reads the dump back, and the conditions under which the scan
  reports nothing.
\<close>

section \<open>The context window\<close>

text \<open>\<^verbatim>\<open>start = max(0, e.start - 20)\<close> and \<^verbatim>\<open>end = min(len(content), e.end + 20)\<close>\<close>

definition context_start :: "unicode_decode_error \<Rightarrow> nat" where
  "context_start e = nat (max 0 (int (ude_start e) - 20))"

definition context_end :: "bytes \<Rightarrow> unicode_decode_error \<Rightarrow> nat" where
  "context_end content e = min (length content) (ude_end e + 20)"

definition context_bytes :: "bytes \<Rightarrow> unicode_decode_error \<Rightarrow> bytes" where
  "context_bytes content e = py_slice content (context_start e) (context_end content e)"

section \<open>The hex dump\<close>

text \<open>\<^verbatim>\<open>' '.join(f'{b:02x}' for b in context)\<close>\<close>

definition hex_digit :: "nat \<Rightarrow> char" where
  "hex_digit d = ''0123456789abcdef'' ! d"

definition hex_byte :: "byte \<Rightarrow> string" where
  "hex_byte b = [hex_digit (unat b div 16), hex_digit (unat b mod 16)]"

definition hex_repr :: "bytes \<Rightarrow> string" where
  "hex_repr context = py_join '' '' (map hex_byte context)"

section \<open>The text of a decoding error\<close>

text \<open>
  \<^verbatim>\<open>str(e)\<close> for a \<^verbatim>\<open>UnicodeDecodeError\<close>: the rejected byte in hex when the range is one
  byte long, the first and last offset of the range otherwise.
\<close>

fun reason_text :: "reason \<Rightarrow> string" where
  "reason_text InvalidStartByte = ''invalid start byte''"
| "reason_text InvalidContinuationByte = ''invalid continuation byte''"
| "reason_text UnexpectedEndOfData = ''unexpected end of data''"

definition codec_name :: string where
  "codec_name = [CHR 0x27] @ ''utf-8'' @ [CHR 0x27]"

definition str_decode_error :: "bytes \<Rightarrow> unicode_decode_error \<Rightarrow> string" where
  "str_decode_error content e =
     (if ude_start e < length content \<and> ude_end e = ude_start e + 1 then
        codec_name @ '' codec can'' @ [CHR 0x27] @ ''t decode byte 0x''
          @ hex_byte (content ! ude_start e) @ '' in position '' @ str_nat (ude_start e)
          @ '': '' @ reason_text (ude_reason e)
      else
        codec_name @ '' codec can'' @ [CHR 0x27] @ ''t decode bytes in position ''
          @ str_nat (ude_start e) @ ''-'' @ str_nat (ude_end e - 1)
          @ '': '' @ reason_text (ude_reason e))"

section \<open>Scanning\<close>

text \<open>
  The dictionary \<^verbatim>\<open>scan_file\<close> returns has one of two shapes: error text, position and
  hex context for a decoding error; the error text alone when the file could not be
  processed.
\<close>

datatype issue =
    DecodeIssue (issue_error: string) (issue_position: nat) (issue_hex_context: string)
  | ProcessIssue (issue_error: string)

text \<open>Lines 13-31: the inner \<^verbatim>\<open>try\<close>, on bytes already read.\<close>

definition scan_content :: "bytes \<Rightarrow> issue option" where
  "scan_content content =
     (case decode_utf8 content of
        Inr text \<Rightarrow> None
      | Inl e \<Rightarrow>
          Some (DecodeIssue (str_decode_error content e) (ude_start e)
                  (hex_repr (context_bytes content e))))"

text \<open>Lines 6-33: the whole function, the outer \<^verbatim>\<open>except Exception\<close> included.\<close>

definition scan_file :: "file_system \<Rightarrow> path \<Rightarrow> issue option" where
  "scan_file fs file_path =
     (case read_file fs file_path of
        Inl e \<Rightarrow> Some (ProcessIssue (''Failed to process file: '' @ os_message e))
      | Inr content \<Rightarrow> scan_content content)"

section \<open>Lemmas on the window\<close>

lemma context_start_eq: "context_start e = ude_start e - 20"
  by (simp add: context_start_def)

lemma context_start_le [simp]: "context_start e \<le> ude_start e"
  by (simp add: context_start_eq)

lemma context_end_le [simp]: "context_end content e \<le> length content"
  by (simp add: context_end_def)

lemma length_context_bytes:
  "length (context_bytes content e) = context_end content e - context_start e"
  by (simp add: context_bytes_def context_end_def)

lemma context_bytes_nth:
  "k < context_end content e - context_start e \<Longrightarrow>
   context_bytes content e ! k = content ! (context_start e + k)"
  by (simp add: context_bytes_def py_slice_nth context_end_def)

section \<open>Lemmas on the dump\<close>

lemma length_hex_byte [simp]: "length (hex_byte b) = 2"
  by (simp add: hex_byte_def)

lemma sum_list_hex_bytes [simp]: "sum_list (map (length \<circ> hex_byte) bs) = 2 * length bs"
  by (induction bs) simp_all

lemma length_hex_repr: "length (hex_repr bs) = 3 * length bs - 1"
  by (cases bs) (simp_all add: hex_repr_def length_py_join)

lemma hex_repr_Nil [simp]: "hex_repr [] = []"
  by (simp add: hex_repr_def)

lemma hex_repr_single [simp]: "hex_repr [b] = hex_byte b"
  by (simp add: hex_repr_def)

lemma hex_repr_Cons:
  "bs \<noteq> [] \<Longrightarrow> hex_repr (b # bs) = hex_byte b @ '' '' @ hex_repr bs"
  by (simp add: hex_repr_def py_join_Cons)

text \<open>Reading a dump back: the value of a hex digit, of two digits, of a whole dump.\<close>

definition hex_value :: "char \<Rightarrow> nat" where
  "hex_value c = (if of_char c < (58::nat) then of_char c - 48 else of_char c - 87)"

fun unhex_repr :: "string \<Rightarrow> bytes" where
  "unhex_repr (h # l # sp # rest) = of_nat (hex_value h * 16 + hex_value l) # unhex_repr rest"
| "unhex_repr [h, l] = [of_nat (hex_value h * 16 + hex_value l)]"
| "unhex_repr s = []"

lemma hex_value_hex_digit [simp]: "d < 16 \<Longrightarrow> hex_value (hex_digit d) = d"
proof -
  have "\<forall>d<16. hex_value (hex_digit d) = d"
    by (simp add: numeral_eq_Suc All_less_Suc hex_value_def hex_digit_def)
  then show "d < 16 \<Longrightarrow> hex_value (hex_digit d) = d" by simp
qed

lemma unat_div_16_lt [simp]: "unat (b :: byte) div 16 < 16"
  using unat_byte_lt [of b] by (simp add: div_less_iff_less_mult)

lemma unhex_hex_byte [simp]:
  "unhex_repr (hex_byte b @ CHR '' '' # rest) = b # unhex_repr rest"
  "unhex_repr (hex_byte b) = [b]"
  by (simp_all add: hex_byte_def)

lemma unhex_hex_repr: "unhex_repr (hex_repr bs) = bs"
proof (induction bs)
  case Nil
  show ?case by simp
next
  case (Cons b bs)
  then show ?case by (cases "bs = []") (simp_all add: hex_repr_Cons)
qed

lemma hex_repr_drop: "k < length bs \<Longrightarrow> drop (3 * k) (hex_repr bs) = hex_repr (drop k bs)"
proof (induction k arbitrary: bs)
  case 0
  show ?case by simp
next
  case (Suc k)
  then obtain b bs' where bs: "bs = b # bs'" and k: "k < length bs'"
    by (cases bs) auto
  from k have "bs' \<noteq> []" by auto
  then have "drop (3 * Suc k) (hex_repr bs) = drop (3 * k) (hex_repr bs')"
    by (simp add: bs hex_repr_Cons)
  with Suc.IH [OF k] show ?case by (simp add: bs)
qed

lemma hex_repr_take2: "bs \<noteq> [] \<Longrightarrow> take 2 (hex_repr bs) = hex_byte (hd bs)"
  by (cases bs; cases "tl bs = []") (auto simp: hex_repr_Cons)

lemma hex_repr_sep: "2 \<le> length bs \<Longrightarrow> hex_repr bs ! 2 = CHR '' ''"
  by (cases bs; cases "tl bs = []") (auto simp: hex_repr_Cons nth_append)

section \<open>Lemmas on the scan\<close>

lemma scan_content_None_iff: "scan_content content = None \<longleftrightarrow> (\<exists>s. decode_utf8 content = Inr s)"
  by (simp add: scan_content_def split: sum.splits)

lemma scan_content_Some:
  "decode_utf8 content = Inl e \<Longrightarrow>
   scan_content content =
     Some (DecodeIssue (str_decode_error content e) (ude_start e)
             (hex_repr (context_bytes content e)))"
  by (simp add: scan_content_def)

lemma scan_content_SomeE:
  assumes "scan_content content = Some i"
  obtains e where "decode_utf8 content = Inl e"
    "i = DecodeIssue (str_decode_error content e) (ude_start e)
           (hex_repr (context_bytes content e))"
  using assms by (auto simp: scan_content_def split: sum.splits)

lemma scan_hello_ff:
  "scan_content hello_ff =
     Some (DecodeIssue
       (codec_name @ '' codec can'' @ [CHR 0x27]
          @ ''t decode byte 0xff in position 5: invalid start byte'')
       5 ''48 65 6c 6c 6f ff 6f'')"
  by (simp add: scan_content_Some [OF decode_hello_ff] str_decode_error_def)
    (simp add: hello_ff_def hex_repr_def hex_byte_def hex_digit_def context_bytes_def
      context_start_def context_end_def py_slice_def str_nat.simps digit_char_def)

section \<open>Properties of the scan\<close>

text \<open>
  C1. The scan of a buffer reports nothing exactly when the buffer is the UTF-8
  encoding of some string.
\<close>

theorem scan_content_clean_iff:
  "scan_content content = None \<longleftrightarrow> (\<exists>s. utf8_encode s = Inr content)"
  by (simp add: scan_content_None_iff decode_utf8_iff_encode)

text \<open>
  C6. The context window contains the rejected range and lies inside the buffer; on
  each side its margin is 20 bytes, or what the buffer has when that is less.
\<close>

theorem context_window_bounds:
  assumes "decode_utf8 content = Inl e"
  shows "context_start e \<le> ude_start e \<and> ude_end e \<le> context_end content e
         \<and> context_end content e \<le> length content
         \<and> ude_start e - context_start e = min 20 (ude_start e)
         \<and> context_end content e - ude_end e = min 20 (length content - ude_end e)"
  using decode_from_bounds [of 0 content e] assms
  by (auto simp: decode_utf8_def context_start_eq context_end_def)

theorem context_window_bounds_witness:
  "decode_utf8 hello_ff = Inl \<lparr>ude_start = 5, ude_end = 6, ude_reason = InvalidStartByte\<rparr>
   \<and> context_start \<lparr>ude_start = 5, ude_end = 6, ude_reason = InvalidStartByte\<rparr> = 0
   \<and> context_end hello_ff \<lparr>ude_start = 5, ude_end = 6, ude_reason = InvalidStartByte\<rparr> = 7"
  using context_window_bounds [OF decode_hello_ff] decode_hello_ff
  by (simp add: hello_ff_def context_end_def context_start_def)

text \<open>
  C19. An issue reported for a buffer carries the start of the first decoding error as
  its position, which is an offset into the buffer, and a hex context that reads back
  to the bytes of the window; the rejected byte at the position is in the dump.
\<close>

theorem scan_content_issue:
  assumes "scan_content content = Some i"
  shows "\<exists>e. decode_utf8 content = Inl e \<and> issue_position i = ude_start e
             \<and> issue_position i < length content
             \<and> unhex_repr (issue_hex_context i) = context_bytes content e
             \<and> context_bytes content e ! (issue_position i - context_start e)
                 = content ! issue_position i"
proof -
  from assms obtain e where e: "decode_utf8 content = Inl e"
    and i: "i = DecodeIssue (str_decode_error content e) (ude_start e)
                  (hex_repr (context_bytes content e))"
    by (rule scan_content_SomeE)
  from e have b: "ude_start e < ude_end e" "ude_end e \<le> length content"
    using decode_from_bounds [of 0 content e] by (simp_all add: decode_utf8_def)
  then have "ude_start e - context_start e < context_end content e - context_start e"
    by (auto simp: context_start_eq context_end_def)
  from context_bytes_nth [OF this] b e show ?thesis
    by (auto simp: i unhex_hex_repr context_start_eq)
qed

theorem scan_content_issue_witness:
  "scan_content hello_ff \<noteq> None
   \<and> (\<exists>e. decode_utf8 hello_ff = Inl e
          \<and> unhex_repr (issue_hex_context (the (scan_content hello_ff)))
              = context_bytes hello_ff e)"
proof -
  obtain i where i: "scan_content hello_ff = Some i" by (simp add: scan_hello_ff)
  from scan_content_issue [OF i] i show ?thesis by auto
qed

text \<open>
  C20. The hex dump determines the bytes it was made from: reading the dump back gives
  the bytes.
\<close>

theorem hex_repr_roundtrip: "unhex_repr (hex_repr bs) = bs"
  by (rule unhex_hex_repr)

text \<open>
  C21. The hex dump of \<open>n\<close> bytes has \<open>3 * n - 1\<close> characters: byte \<open>k\<close> is rendered as
  two lowercase hex digits at offset \<open>3 * k\<close>, and a single space follows every byte
  but the last.
\<close>

theorem hex_repr_layout:
  "length (hex_repr bs) = 3 * length bs - 1
   \<and> (\<forall>k<length bs. take 2 (drop (3 * k) (hex_repr bs)) = hex_byte (bs ! k))
   \<and> (\<forall>k. Suc k < length bs \<longrightarrow> hex_repr bs ! (3 * k + 2) = CHR '' '')"
proof (intro conjI allI impI)
  show "length (hex_repr bs) = 3 * length bs - 1" by (rule length_hex_repr)
next
  fix k assume k: "k < length bs"
  then show "take 2 (drop (3 * k) (hex_repr bs)) = hex_byte (bs ! k)"
    by (simp add: hex_repr_drop hex_repr_take2 hd_drop_conv_nth)
next
  fix k assume k: "Suc k < length bs"
  then have "3 * k + 2 \<le> length (hex_repr bs)" by (simp add: length_hex_repr)
  then have "hex_repr bs ! (3 * k + 2) = drop (3 * k) (hex_repr bs) ! 2" by simp
  also from k have "\<dots> = CHR '' ''" by (simp add: hex_repr_drop hex_repr_sep)
  finally show "hex_repr bs ! (3 * k + 2) = CHR '' ''" .
qed

theorem hex_repr_layout_witness:
  "hex_repr [0x6f, 0xff :: byte] = ''6f ff''
   \<and> take 2 (drop (3 * 1) (hex_repr [0x6f, 0xff])) = hex_byte ([0x6f, 0xff] ! 1)
   \<and> hex_repr [0x6f, 0xff] ! (3 * 0 + 2) = CHR '' ''"
  using hex_repr_layout [of "[0x6f, 0xff]"]
  by (simp add: hex_repr_def hex_byte_def hex_digit_def)

text \<open>
  C22. \<^verbatim>\<open>scan_file\<close> reports nothing exactly when the file can be read and its bytes are
  the UTF-8 encoding of some string.
\<close>

theorem scan_file_clean_iff:
  "scan_file fs p = None
     \<longleftrightarrow> (\<exists>s content. read_file fs p = Inr content \<and> utf8_encode s = Inr content)"
  by (cases "read_file fs p")
    (auto simp: scan_file_def scan_content_None_iff decode_utf8_iff_encode)

end
