(* ===== verification/Fix_File.thy ===== *)
theory Fix_File
  imports Scan_File
begin

text \<open>
  \<^verbatim>\<open>fix_file\<close> (lines 35-55 of \<^verbatim>\<open>src/fix_utf8.py\<close>): read the file, decode it with
  \<^verbatim>\<open>errors='replace'\<close>, write the original bytes to \<^verbatim>\<open>file_path + '.bak'\<close>, then write the
  decoded text back through a UTF-8 text file. Any exception ends the function with a
  dictionary of status \<^verbatim>\<open>'error'\<close>; what was written before the exception stays written.
  The lemmas describe the bytes that end up on disk (\<open>repair\<close>), and the transaction:
  which files can change, what a failure at each step leaves behind, and that the
  original bytes survive in one of the two files whatever happens.
\<close>

section \<open>The result dictionary\<close>

text \<open>
  \<^verbatim>\<open>{'status': 'fixed', 'backup': backup_path}\<close> or \<^verbatim>\<open>{'status': 'error', 'error': str(e)}\<close>.
  No line of the program reads the \<^verbatim>\<open>'error'\<close> entry of this dictionary, so the model
  keeps the exception and the step that raised it instead of its text.
\<close>

datatype fix_failure = ReadFailed os_error | BackupFailed os_error | WriteFailed write_error

datatype fix_result = Fixed (fix_backup: path) | FixError (fix_failure: fix_failure)

fun fix_status :: "fix_result \<Rightarrow> string" where
  "fix_status (Fixed backup) = ''fixed''"
| "fix_status (FixError e) = ''error''"

section \<open>The operation\<close>

definition backup_path :: "path \<Rightarrow> path" where
  "backup_path file_path = file_path @ ''.bak''"

definition fixed_content :: "bytes \<Rightarrow> pystr" where
  "fixed_content content = decode_replace content"

definition fix_file :: "file_system \<Rightarrow> path \<Rightarrow> fix_result \<times> file_system" where
  "fix_file fs file_path =
     (case read_file fs file_path of
        Inl e \<Rightarrow> (FixError (ReadFailed e), fs)
      | Inr content \<Rightarrow>
          (case write_file fs (backup_path file_path) content of
             (Inl e, fs1) \<Rightarrow> (FixError (BackupFailed e), fs1)
           | (Inr u, fs1) \<Rightarrow>
               (case write_text fs1 file_path (fixed_content content) of
                  (Inl e, fs2) \<Rightarrow> (FixError (WriteFailed e), fs2)
                | (Inr u, fs2) \<Rightarrow> (Fixed (backup_path file_path), fs2))))"

text \<open>
  The bytes a successful fix leaves in the file: the replaced text, its newlines
  translated to \<open>linesep\<close>, encoded again (lines 42 and 50-51 together).
\<close>

definition repair :: "pystr \<Rightarrow> bytes \<Rightarrow> (unicode_encode_error, bytes) result" where
  "repair linesep content = utf8_encode (translate_newlines linesep (fixed_content content))"

section \<open>The repaired bytes\<close>

lemma translate_newlines_scalar:
  "list_all is_scalar linesep \<Longrightarrow> list_all is_scalar s \<Longrightarrow>
   list_all is_scalar (translate_newlines linesep s)"
  by (induction s) (simp_all add: translate_newlines_def)

lemma repair_total:
  "list_all is_scalar linesep \<Longrightarrow> \<exists>r. repair linesep content = Inr r"
  unfolding repair_def utf8_encode_def fixed_content_def
  by (simp add: encode_from_scalar_iff translate_newlines_scalar)

lemma repair_posix: "repair [10] content = utf8_encode (decode_replace content)"
  by (simp add: repair_def fixed_content_def)

lemma repair_decodes:
  "repair linesep content = Inr r \<Longrightarrow>
   decode_utf8 r = Inr (translate_newlines linesep (decode_replace content))"
  by (simp add: repair_def fixed_content_def decode_utf8_iff_encode)

lemma repair_valid:
  assumes "decode_utf8 content = Inr s"
  shows "repair [10] content = Inr content"
proof -
  from assms have "decode_replace content = s"
    unfolding decode_utf8_def by (rule decode_replace_valid)
  with assms show ?thesis by (simp add: repair_posix decode_utf8_iff_encode)
qed

lemma repair_idem:
  assumes "repair [10] content = Inr r"
  shows "repair [10] r = Inr r"
proof -
  from repair_decodes [OF assms] have "decode_utf8 r = Inr (decode_replace content)" by simp
  then show ?thesis by (rule repair_valid)
qed

subsection \<open>The newline translation on the encoded bytes\<close>

text \<open>
  The translation acts on the text; on the bytes it is the replacement of every byte
  \<^verbatim>\<open>0a\<close> by the encoded line separator, because no other code point has that byte in
  its encoding.
\<close>

definition translate_newline_bytes :: "bytes \<Rightarrow> bytes \<Rightarrow> bytes" where
  "translate_newline_bytes l bs = concat (map (\<lambda>b. if b = 0x0A then l else [b]) bs)"

lemma translate_newline_bytes_append [simp]:
  "translate_newline_bytes l (xs @ ys)
     = translate_newline_bytes l xs @ translate_newline_bytes l ys"
  by (simp add: translate_newline_bytes_def)

lemma translate_newline_bytes_id: "0x0A \<notin> set e \<Longrightarrow> translate_newline_bytes l e = e"
  by (induction e) (auto simp: translate_newline_bytes_def)

lemma encode_char_newline: "encode_char 10 = Some [0x0A]"
  by (simp add: encode_char_def)

lemma encode_char_no_newline:
  assumes "encode_char c = Some e" and "c \<noteq> 10"
  shows "0x0A \<notin> set e"
proof
  assume "0x0A \<in> set e"
  from encode_char_ascii [OF assms(1) this] have "unat (0x0A :: byte) = c" by simp
  with assms(2) show False by simp
qed

lemma encode_translate:
  assumes "encode_from q linesep = Inr l"
  shows "encode_from pos s = Inr bs \<Longrightarrow>
         encode_from pos' (translate_newlines linesep s) = Inr (translate_newline_bytes l bs)"
proof (induction s arbitrary: pos pos' bs)
  case Nil
  then show ?case by (simp add: translate_newlines_def translate_newline_bytes_def)
next
  case (Cons c s)
  from Cons.prems obtain e r where e: "encode_char c = Some e"
    and r: "encode_from (Suc pos) s = Inr r" and bs: "bs = e @ r"
    unfolding encode_from_Cons_Inr by blast
  show ?case
  proof (cases "c = 10")
    case True
    with e have e10: "e = [0x0A]" by (simp add: encode_char_newline)
    from encode_from_append [OF assms Cons.IH [OF r, of 0]]
    have "encode_from q (linesep @ translate_newlines linesep s)
            = Inr (l @ translate_newline_bytes l r)" .
    then have "encode_from pos' (linesep @ translate_newlines linesep s)
            = Inr (l @ translate_newline_bytes l r)" by (rule encode_from_pos)
    then show ?thesis
      by (simp add: True bs e10 translate_newlines_def translate_newline_bytes_def)
  next
    case False
    from encode_char_no_newline [OF e False] have "translate_newline_bytes l e = e"
      by (rule translate_newline_bytes_id)
    with Cons.IH [OF r, of "Suc pos'"] e False show ?thesis
      by (simp add: bs translate_newlines_def)
  qed
qed

section \<open>The transaction\<close>

lemma backup_path_neq [simp]: "backup_path p \<noteq> p" "p \<noteq> backup_path p"
  by (simp_all add: backup_path_def)

lemma backup_path_inj [simp]: "backup_path p = backup_path q \<longleftrightarrow> p = q"
  by (simp add: backup_path_def)

text \<open>The four ways through \<^verbatim>\<open>fix_file\<close>, as an elimination rule.\<close>

lemma fix_file_cases [case_names read_failed backup_failed write_failed fixed]:
  obtains
    (read_failed) e where "read_file fs p = Inl e" "fix_file fs p = (FixError (ReadFailed e), fs)"
  | (backup_failed) content e fs1 where "read_file fs p = Inr content"
      "write_file fs (backup_path p) content = (Inl e, fs1)"
      "fix_file fs p = (FixError (BackupFailed e), fs1)"
  | (write_failed) content fs1 e fs2 where "read_file fs p = Inr content"
      "write_file fs (backup_path p) content = (Inr (), fs1)"
      "write_text fs1 p (fixed_content content) = (Inl e, fs2)"
      "fix_file fs p = (FixError (WriteFailed e), fs2)"
  | (fixed) content fs1 fs2 where "read_file fs p = Inr content"
      "write_file fs (backup_path p) content = (Inr (), fs1)"
      "write_text fs1 p (fixed_content content) = (Inr (), fs2)"
      "fix_file fs p = (Fixed (backup_path p), fs2)"
proof (cases "read_file fs p")
  case (Inl e)
  then show ?thesis by (intro read_failed [of e]) (simp_all add: fix_file_def)
next
  case (Inr content)
  obtain r1 fs1 where w1: "write_file fs (backup_path p) content = (r1, fs1)"
    by (cases "write_file fs (backup_path p) content")
  show ?thesis
  proof (cases r1)
    case (Inl e)
    with Inr w1 show ?thesis by (intro backup_failed [of content e fs1]) (simp_all add: fix_file_def)
  next
    case Inr1: (Inr u)
    obtain r2 fs2 where w2: "write_text fs1 p (fixed_content content) = (r2, fs2)"
      by (cases "write_text fs1 p (fixed_content content)")
    show ?thesis
    proof (cases r2)
      case (Inl e)
      with Inr w1 Inr1 w2 show ?thesis
        by (intro write_failed [of content fs1 e fs2]) (simp_all add: fix_file_def)
    next
      case Inr2: (Inr u')
      with Inr w1 Inr1 w2 show ?thesis
        by (intro fixed [of content fs1 fs2]) (simp_all add: fix_file_def)
    qed
  qed
qed

lemma read_file_Inr_files: "read_file fs p = Inr content \<Longrightarrow> fs_files fs p = Some content"
  by (simp add: read_file_def split: option.splits)

lemma write_file_Inr:
  "write_file fs p data = (Inr u, fs') \<Longrightarrow> fs' = put_file fs p data"
  by (cases fs p data rule: write_file_cases) simp_all

lemma write_text_Inr:
  "write_text fs p s = (Inr u, fs') \<Longrightarrow>
   \<exists>data. utf8_encode (translate_newlines (fs_linesep fs) s) = Inr data \<and> fs' = put_file fs p data"
  by (auto simp: write_text_def split: option.splits write_fault.splits sum.splits)

text \<open>Only the file and its backup can change.\<close>

lemma fix_file_frame:
  "q \<noteq> p \<Longrightarrow> q \<noteq> backup_path p \<Longrightarrow> fs_files (snd (fix_file fs p)) q = fs_files fs q"
proof (cases rule: fix_file_cases [where fs = fs and p = p])
  case (read_failed e)
  then show ?thesis by simp
next
  case (backup_failed content e fs1)
  assume "q \<noteq> backup_path p"
  from write_file_other [OF this, of fs content] backup_failed show ?thesis by simp
next
  case (write_failed content fs1 e fs2)
  assume q: "q \<noteq> p" "q \<noteq> backup_path p"
  from write_text_other [OF q(1), of fs1 "fixed_content content"]
    write_file_other [OF q(2), of fs content] write_failed
  show ?thesis by simp
next
  case (fixed content fs1 fs2)
  assume q: "q \<noteq> p" "q \<noteq> backup_path p"
  from write_text_other [OF q(1), of fs1 "fixed_content content"]
    write_file_other [OF q(2), of fs content] fixed
  show ?thesis by simp
qed

lemma fix_file_env [simp]:
  "fs_read_fault (snd (fix_file fs p)) = fs_read_fault fs"
  "fs_absent (snd (fix_file fs p)) = fs_absent fs"
  "fs_write_fault (snd (fix_file fs p)) = fs_write_fault fs"
  "fs_linesep (snd (fix_file fs p)) = fs_linesep fs"
proof -
  have env: "\<And>fs1 fs2 content r1 r2.
      write_file fs (backup_path p) content = (r1, fs1) \<Longrightarrow>
      write_text fs1 p (fixed_content content) = (r2, fs2) \<Longrightarrow>
      fs_read_fault fs2 = fs_read_fault fs \<and> fs_absent fs2 = fs_absent fs
      \<and> fs_write_fault fs2 = fs_write_fault fs \<and> fs_linesep fs2 = fs_linesep fs"
    by (metis snd_conv write_file_env write_text_env)
  have env1: "\<And>fs1 content r1. write_file fs (backup_path p) content = (r1, fs1) \<Longrightarrow>
      fs_read_fault fs1 = fs_read_fault fs \<and> fs_absent fs1 = fs_absent fs
      \<and> fs_write_fault fs1 = fs_write_fault fs \<and> fs_linesep fs1 = fs_linesep fs"
    by (metis snd_conv write_file_env)
  show "fs_read_fault (snd (fix_file fs p)) = fs_read_fault fs"
    "fs_absent (snd (fix_file fs p)) = fs_absent fs"
    "fs_write_fault (snd (fix_file fs p)) = fs_write_fault fs"
    "fs_linesep (snd (fix_file fs p)) = fs_linesep fs"
    by (cases rule: fix_file_cases [where fs = fs and p = p]; simp add: env env1)+
qed

text \<open>Once written, the backup is not touched by the write to the file itself.\<close>

lemma backup_survives_write:
  assumes "write_file fs (backup_path p) content = (Inr (), fs1)"
    and "write_text fs1 p s = (r, fs2)"
  shows "fs_files fs2 (backup_path p) = Some content"
proof -
  from write_file_Inr [OF assms(1)] have "fs_files fs1 (backup_path p) = Some content" by simp
  with write_text_other [of "backup_path p" p fs1 s] assms(2) show ?thesis by simp
qed

text \<open>What is known after a successful fix.\<close>

lemma fix_file_FixedE:
  assumes "fix_file fs p = (Fixed b, fs')"
  obtains content data where "read_file fs p = Inr content" "b = backup_path p"
    "fs_write_fault fs (backup_path p) = None" "fs_write_fault fs p = None"
    "repair (fs_linesep fs) content = Inr data"
    "fs' = put_file (put_file fs (backup_path p) content) p data"
proof (cases rule: fix_file_cases [where fs = fs and p = p])
  case (fixed content fs1 fs2)
  from write_file_Inr [OF fixed(2)] have fs1: "fs1 = put_file fs (backup_path p) content" .
  from write_text_Inr [OF fixed(3)] obtain data where
    data: "repair (fs_linesep fs) content = Inr data" "fs2 = put_file fs1 p data"
    by (auto simp: fs1 repair_def)
  from fixed(2) have f1: "fs_write_fault fs (backup_path p) = None"
    using write_file_ok_iff [of fs "backup_path p" content] by simp
  from fixed(3) have "fs_write_fault fs1 p = None"
    by (auto simp: write_text_def split: option.splits write_fault.splits sum.splits)
  then have f2: "fs_write_fault fs p = None" by (simp add: fs1)
  from fixed(1) f1 f2 data assms fixed(4) show ?thesis
    by (intro that [of content data]) (auto simp: fs1)
qed (use assms in simp_all)

lemma fix_file_ok:
  assumes "read_file fs p = Inr content" and "repair (fs_linesep fs) content = Inr data"
    and "fs_write_fault fs (backup_path p) = None" and "fs_write_fault fs p = None"
  shows "fix_file fs p = (Fixed (backup_path p), put_file (put_file fs (backup_path p) content) p data)"
proof -
  let ?fs1 = "put_file fs (backup_path p) content"
  from assms(2) have "utf8_encode (translate_newlines (fs_linesep ?fs1) (fixed_content content)) = Inr data"
    by (simp add: repair_def)
  with assms(4) have "write_text ?fs1 p (fixed_content content) = (Inr (), put_file ?fs1 p data)"
    by (intro write_text_ok) simp_all
  with assms(1,3) show ?thesis by (simp add: fix_file_def write_file_def)
qed

text \<open>The length of the repaired bytes: a step covers \<open>n \<ge> 1\<close> bytes and yields either the
  \<open>n\<close> bytes it read or the three bytes of U+FFFD.\<close>

lemma encode_replacement: "encode_char replacement_character = Some [0xEF, 0xBF, 0xBD]"
  by (simp add: replacement_character_def encode_char_def is_surrogate_def)

lemma step_char_encode_length:
  assumes "bs \<noteq> []" and "encode_char (step_char (utf8_step bs)) = Some e"
  shows "length e \<le> 3 * step_len bs (utf8_step bs)"
proof (cases "utf8_step bs")
  case (Decoded cp n)
  from step_encode [OF this] step_len_le [OF assms(1)] assms(2) show ?thesis
    by (auto simp: Decoded)
next
  case Incomplete
  with assms show ?thesis by (cases bs) (auto simp: encode_replacement)
next
  case InvalidStart
  with assms show ?thesis by (auto simp: encode_replacement)
next
  case (InvalidContinuation n)
  with assms step_len_pos [OF assms(1)] show ?thesis by (auto simp: encode_replacement)
qed

lemma encode_replace_length:
  "encode_from pos (decode_replace bs) = Inr r \<Longrightarrow> length r \<le> 3 * length bs"
proof (induction bs arbitrary: pos r rule: decode_replace_induct)
  case Nil
  then show ?case by simp
next
  case (Step bs)
  let ?n = "step_len bs (utf8_step bs)"
  from Step.prems obtain e r' where e: "encode_char (step_char (utf8_step bs)) = Some e"
    and r': "encode_from (Suc pos) (decode_replace (drop ?n bs)) = Inr r'" and r: "r = e @ r'"
    unfolding decode_replace_step [OF Step.hyps] encode_from_Cons_Inr by blast
  from Step.IH [OF r'] step_char_encode_length [OF Step.hyps e] step_len_le [OF Step.hyps]
  show ?case by (simp add: r)
qed

section \<open>Examples\<close>

lemma repair_hello_ff:
  "repair [10] hello_ff = Inr [0x48, 0x65, 0x6c, 0x6c, 0x6f, 0xef, 0xbf, 0xbd, 0x6f]"
  by (simp add: repair_posix decode_replace_hello_ff utf8_encode_def encode_char_def
      is_surrogate_def)

text \<open>The error of a write to a full disk.\<close>

definition disk_full :: os_error where
  "disk_full = \<lparr>os_errno = 28, os_message = ''[Errno 28] No space left on device''\<rparr>"

definition hello_fixed :: bytes where
  "hello_fixed = [0x48, 0x65, 0x6c, 0x6c, 0x6f, 0xef, 0xbf, 0xbd, 0x6f]"

lemma fix_hello_ff:
  "fix_file (posix_fs [''a'' \<mapsto> hello_ff]) ''a''
     = (Fixed ''a.bak'', posix_fs [''a'' \<mapsto> hello_fixed, ''a.bak'' \<mapsto> hello_ff])"
  by (simp add: fix_file_ok [where content = hello_ff] read_file_posix repair_hello_ff
      backup_path_def fun_upd_twist hello_fixed_def)

section \<open>Properties of the repair\<close>

text \<open>
  C2. Whatever happens in \<^verbatim>\<open>fix_file\<close>, the bytes that were read are on disk afterwards:
  in the file itself or in its backup.
\<close>

theorem fix_file_keeps_original:
  assumes "read_file fs p = Inr content"
  shows "fs_files (snd (fix_file fs p)) p = Some content
         \<or> fs_files (snd (fix_file fs p)) (backup_path p) = Some content"
proof (cases rule: fix_file_cases [where fs = fs and p = p])
  case (read_failed e)
  with assms show ?thesis by simp
next
  case (backup_failed c e fs1)
  with assms write_file_other [of p "backup_path p" fs c] show ?thesis
    by (simp add: read_file_Inr_files)
next
  case (write_failed c fs1 e fs2)
  with assms backup_survives_write [OF write_failed(2,3)] show ?thesis by simp
next
  case (fixed c fs1 fs2)
  with assms backup_survives_write [OF fixed(2,3)] show ?thesis by simp
qed

theorem fix_file_keeps_original_witness:
  "read_file (posix_fs [''a.txt'' \<mapsto> hello_ff]) ''a.txt'' = Inr hello_ff
   \<and> fs_files (snd (fix_file (posix_fs [''a.txt'' \<mapsto> hello_ff]) ''a.txt'')) ''a.txt.bak''
       = Some hello_ff"
  using fix_file_keeps_original [of "posix_fs [''a.txt'' \<mapsto> hello_ff]" "''a.txt''" hello_ff]
  by (simp add: read_file_posix fix_file_ok [where content = hello_ff, OF _ _ _ _]
      repair_hello_ff backup_path_def)

text \<open>
  C13. A failure before the file is opened for writing (the read fails, or the backup
  cannot be written) leaves the file as it was.
\<close>

theorem fix_file_early_failure:
  assumes "fix_file fs p = (FixError f, fs')" and "f = ReadFailed e \<or> f = BackupFailed e"
  shows "read_file fs' p = read_file fs p"
proof (cases rule: fix_file_cases [where fs = fs and p = p])
  case (backup_failed content e' fs1)
  from write_file_other [of p "backup_path p" fs content] write_file_env [of fs "backup_path p" content]
    backup_failed(2,3) assms(1)
  show ?thesis by (simp add: read_file_def split: option.splits)
qed (use assms in auto)

theorem fix_file_early_failure_witness:
  "fix_file ((posix_fs [''a'' \<mapsto> hello_ff])
        \<lparr>fs_write_fault := [''a.bak'' \<mapsto> WriteFault disk_full 3]\<rparr>) ''a''
     = (FixError (BackupFailed disk_full),
        (posix_fs [''a'' \<mapsto> hello_ff, ''a.bak'' \<mapsto> take 3 hello_ff])
          \<lparr>fs_write_fault := [''a.bak'' \<mapsto> WriteFault disk_full 3]\<rparr>)
   \<and> read_file ((posix_fs [''a'' \<mapsto> hello_ff, ''a.bak'' \<mapsto> take 3 hello_ff])
          \<lparr>fs_write_fault := [''a.bak'' \<mapsto> WriteFault disk_full 3]\<rparr>) ''a''
       = Inr hello_ff"
proof -
  let ?fs = "(posix_fs [''a'' \<mapsto> hello_ff])
               \<lparr>fs_write_fault := [''a.bak'' \<mapsto> WriteFault disk_full 3]\<rparr>"
  let ?fs' = "(posix_fs [''a'' \<mapsto> hello_ff, ''a.bak'' \<mapsto> take 3 hello_ff])
                \<lparr>fs_write_fault := [''a.bak'' \<mapsto> WriteFault disk_full 3]\<rparr>"
  have run: "fix_file ?fs ''a'' = (FixError (BackupFailed disk_full), ?fs')"
    by (simp add: fix_file_def read_file_def write_file_def backup_path_def put_file_def
        posix_fs_def)
  from fix_file_early_failure [OF run, of disk_full] run show ?thesis
    by (simp add: read_file_def posix_fs_def)
qed

text \<open>
  C4. When \<^verbatim>\<open>fix_file\<close> reports \<^verbatim>\<open>fixed\<close>, the backup it names is \<^verbatim>\<open>file_path + '.bak'\<close> and
  holds the bytes that were read, and the file holds the repaired bytes: the text
  decoded with replacement, written through the platform's newline translation and
  encoded again.
\<close>

theorem fix_file_fixed:
  assumes "fix_file fs p = (Fixed b, fs')"
  shows "b = backup_path p \<and>
         (\<exists>content data. read_file fs p = Inr content \<and> fs_files fs' b = Some content
            \<and> repair (fs_linesep fs) content = Inr data \<and> fs_files fs' p = Some data)"
  using assms by (rule fix_file_FixedE) auto

theorem fix_file_fixed_witness:
  "fix_file (posix_fs [''a'' \<mapsto> hello_ff]) ''a''
     = (Fixed ''a.bak'',
        posix_fs [''a'' \<mapsto> [0x48, 0x65, 0x6c, 0x6c, 0x6f, 0xef, 0xbf, 0xbd, 0x6f],
                  ''a.bak'' \<mapsto> hello_ff])
   \<and> ''a.bak'' = backup_path ''a''"
  using fix_file_fixed [OF fix_hello_ff] fix_hello_ff
  by (simp add: hello_fixed_def backup_path_def)

text \<open>
  C8. A file that \<^verbatim>\<open>fix_file\<close> reports as fixed passes the scan afterwards.
\<close>

theorem fix_then_scan_clean:
  assumes "fix_file fs p = (Fixed b, fs')"
  shows "scan_file fs' p = None"
  using assms
proof (rule fix_file_FixedE)
  fix content data
  assume r: "read_file fs p = Inr content" and d: "repair (fs_linesep fs) content = Inr data"
    and fs': "fs' = put_file (put_file fs (backup_path p) content) p data"
  from r have "read_file fs' p = Inr data" by (simp add: fs' read_file_Inr_iff)
  with repair_decodes [OF d] show ?thesis by (simp add: scan_file_def scan_content_def)
qed

theorem fix_then_scan_clean_witness:
  "fst (fix_file (posix_fs [''a'' \<mapsto> hello_ff]) ''a'') = Fixed ''a.bak''
   \<and> scan_file (posix_fs [''a'' \<mapsto> hello_ff]) ''a'' \<noteq> None
   \<and> scan_file (snd (fix_file (posix_fs [''a'' \<mapsto> hello_ff]) ''a'')) ''a'' = None"
proof -
  have run: "fst (fix_file (posix_fs [''a'' \<mapsto> hello_ff]) ''a'') = Fixed ''a.bak''"
    by (simp add: fix_file_ok [where content = hello_ff] read_file_posix repair_hello_ff
        backup_path_def)
  from fix_then_scan_clean
      [OF surjective_pairing [of "fix_file (posix_fs [''a'' \<mapsto> hello_ff]) ''a''", unfolded run]]
    run show ?thesis
    by (simp add: scan_file_def read_file_posix scan_hello_ff)
qed

text \<open>
  C24. \<^verbatim>\<open>fix_file\<close> reports \<^verbatim>\<open>fixed\<close> exactly when the file can be read, neither the backup
  path nor the file itself refuses the write, and the translated text can be encoded;
  in every other case it reports \<^verbatim>\<open>error\<close>.
\<close>

theorem fix_file_fixed_iff:
  "fix_status (fst (fix_file fs p)) = ''fixed''
     \<longleftrightarrow> (\<exists>content data. read_file fs p = Inr content
            \<and> repair (fs_linesep fs) content = Inr data)
         \<and> fs_write_fault fs (backup_path p) = None \<and> fs_write_fault fs p = None"
proof
  assume "fix_status (fst (fix_file fs p)) = ''fixed''"
  then obtain b fs' where "fix_file fs p = (Fixed b, fs')"
    by (cases "fix_file fs p"; cases "fst (fix_file fs p)") auto
  then show "(\<exists>content data. read_file fs p = Inr content
            \<and> repair (fs_linesep fs) content = Inr data)
         \<and> fs_write_fault fs (backup_path p) = None \<and> fs_write_fault fs p = None"
    by (rule fix_file_FixedE) auto
next
  assume "(\<exists>content data. read_file fs p = Inr content
            \<and> repair (fs_linesep fs) content = Inr data)
         \<and> fs_write_fault fs (backup_path p) = None \<and> fs_write_fault fs p = None"
  then show "fix_status (fst (fix_file fs p)) = ''fixed''"
    by (auto simp: fix_file_ok)
qed

text \<open>
  C14. \<^verbatim>\<open>fix_file\<close> changes no file but the one it is given and that file's backup, and
  nothing when the file cannot be read.
\<close>

theorem fix_file_changes_only:
  "(\<forall>q. q \<noteq> p \<and> q \<noteq> backup_path p \<longrightarrow> fs_files (snd (fix_file fs p)) q = fs_files fs q)
   \<and> (\<forall>e. read_file fs p = Inl e \<longrightarrow> snd (fix_file fs p) = fs)"
proof (intro conjI allI impI)
  fix q assume "q \<noteq> p \<and> q \<noteq> backup_path p"
  then show "fs_files (snd (fix_file fs p)) q = fs_files fs q" by (simp add: fix_file_frame)
next
  fix e assume "read_file fs p = Inl e"
  then show "snd (fix_file fs p) = fs" by (simp add: fix_file_def)
qed

theorem fix_file_changes_only_witness:
  "fs_files (snd (fix_file (posix_fs [''a'' \<mapsto> hello_ff, ''b'' \<mapsto> euro_cut]) ''a'')) ''b''
     = Some euro_cut
   \<and> snd (fix_file (posix_fs [''b'' \<mapsto> euro_cut]) ''a'') = posix_fs [''b'' \<mapsto> euro_cut]"
  using fix_file_changes_only [of "''a''" "posix_fs [''a'' \<mapsto> hello_ff, ''b'' \<mapsto> euro_cut]"]
    fix_file_changes_only [of "''a''" "posix_fs [''b'' \<mapsto> euro_cut]"]
  by (simp add: backup_path_def read_file_posix)

text \<open>
  C16. On a platform whose line separator is \<^verbatim>\<open>'\n'\<close>, the repair of a valid buffer is
  the buffer itself.
\<close>

theorem repair_valid_identity:
  assumes "decode_utf8 content = Inr s"
  shows "repair [10] content = Inr content"
  using assms by (rule repair_valid)

theorem repair_valid_identity_witness:
  "decode_utf8 [0x48, 0x69] = Inr [0x48, 0x69] \<and> repair [10] [0x48, 0x69] = Inr [0x48, 0x69]"
proof -
  have d: "decode_utf8 [0x48, 0x69] = Inr [0x48, 0x69]" by (simp add: codec_eval)
  from repair_valid_identity [OF d] d show ?thesis by simp
qed

text \<open>
  C17. On a platform whose line separator is \<^verbatim>\<open>'\n'\<close> the repair is idempotent: repairing
  the repaired bytes gives the same bytes.
\<close>

theorem repair_idempotent:
  "\<exists>r. repair [10] content = Inr r \<and> repair [10] r = Inr r"
  using repair_total [of "[10]" content] by (auto simp: is_scalar_def is_surrogate_def repair_idem)

text \<open>
  C30. Where \<^verbatim>\<open>os.linesep\<close> is \<^verbatim>\<open>'\n'\<close>, the repaired file is at most three times as
  long as the original: every step of the decoder covers at least one byte and yields
  the bytes it read or the three bytes of U+FFFD.
\<close>

theorem repair_length:
  assumes "repair [10] content = Inr r"
  shows "length r \<le> 3 * length content"
  using assms by (simp add: repair_posix utf8_encode_def encode_replace_length)

theorem repair_length_witness:
  "repair [10] [0xff, 0xfe] = Inr [0xef, 0xbf, 0xbd, 0xef, 0xbf, 0xbd]
   \<and> length [0xef, 0xbf, 0xbd, 0xef, 0xbf, 0xbd :: byte] \<le> 3 * length [0xff, 0xfe :: byte]"
proof -
  have r: "repair [10] [0xff, 0xfe] = Inr [0xef, 0xbf, 0xbd, 0xef, 0xbf, 0xbd]"
    by (simp add: repair_posix codec_eval)
  from repair_length [OF r] r show ?thesis by simp
qed

text \<open>
  C37. Where \<^verbatim>\<open>os.linesep\<close> is \<^verbatim>\<open>'\n'\<close>, running \<^verbatim>\<open>fix_file\<close> a second time on a file
  replaces the backup of the first run: afterwards the backup holds the repaired bytes,
  and the original bytes are gone from both files unless the first repair changed
  nothing.
\<close>

theorem fix_file_twice_backup:
  assumes "fs_linesep fs = [10]"
    and "fix_file fs p = (Fixed b, fs1)" and "fix_file fs1 p = (Fixed b', fs2)"
  shows "fs_files fs2 (backup_path p) = fs_files fs1 p \<and> fs_files fs2 p = fs_files fs1 p"
proof -
  from assms(2) obtain content data where d: "repair (fs_linesep fs) content = Inr data"
    and fs1: "fs1 = put_file (put_file fs (backup_path p) content) p data"
    by (rule fix_file_FixedE)
  from assms(3) obtain content' data' where c': "read_file fs1 p = Inr content'"
    and d': "repair (fs_linesep fs1) content' = Inr data'"
    and fs2: "fs2 = put_file (put_file fs1 (backup_path p) content') p data'"
    by (rule fix_file_FixedE)
  from c' have "content' = data" by (simp add: fs1 read_file_Inr_iff)
  with d d' assms(1) repair_idem [of content data] have "data' = data" by (simp add: fs1)
  with \<open>content' = data\<close> show ?thesis by (simp add: fs2 fs1)
qed

theorem fix_file_twice_backup_witness:
  "fix_file (posix_fs [''a'' \<mapsto> hello_ff]) ''a''
     = (Fixed ''a.bak'', posix_fs [''a'' \<mapsto> hello_fixed, ''a.bak'' \<mapsto> hello_ff])
   \<and> fix_file (posix_fs [''a'' \<mapsto> hello_fixed, ''a.bak'' \<mapsto> hello_ff]) ''a''
     = (Fixed ''a.bak'', posix_fs [''a'' \<mapsto> hello_fixed, ''a.bak'' \<mapsto> hello_fixed])
   \<and> hello_fixed \<noteq> hello_ff"
proof -
  have again: "repair [10] hello_fixed = Inr hello_fixed"
    using repair_idem [OF repair_hello_ff] by (simp add: hello_fixed_def)
  have run2: "fix_file (posix_fs [''a'' \<mapsto> hello_fixed, ''a.bak'' \<mapsto> hello_ff]) ''a''
     = (Fixed ''a.bak'', posix_fs [''a'' \<mapsto> hello_fixed, ''a.bak'' \<mapsto> hello_fixed])"
    by (simp add: fix_file_ok [where content = hello_fixed] read_file_posix again
        backup_path_def fun_upd_twist)
  from fix_file_twice_backup [OF _ fix_hello_ff run2] fix_hello_ff run2 show ?thesis
    by (simp add: hello_fixed_def hello_ff_def)
qed

text \<open>
  C38. What the text-mode write does to the line ends, on the bytes: the bytes written
  on a platform with line separator \<open>linesep\<close> are the bytes written where the separator
  is \<^verbatim>\<open>'\n'\<close>, with every byte \<^verbatim>\<open>0a\<close> replaced by the encoded separator. Where that is
  \<^verbatim>\<open>'\r\n'\<close>, a valid file with a line end is changed, and a \<^verbatim>\<open>0d 0a\<close> of the original
  becomes \<^verbatim>\<open>0d 0d 0a\<close>.
\<close>

theorem repair_newlines:
  assumes "repair [10] content = Inr r" and "utf8_encode linesep = Inr l"
  shows "repair linesep content = Inr (translate_newline_bytes l r)"
  using assms encode_translate [of 0 linesep l 0 "fixed_content content" r 0]
  by (simp add: repair_def utf8_encode_def)

theorem repair_newlines_witness:
  "repair [10] [0x61, 0x0d, 0x0a] = Inr [0x61, 0x0d, 0x0a]
   \<and> utf8_encode [13, 10] = Inr [0x0d, 0x0a]
   \<and> repair [13, 10] [0x61, 0x0d, 0x0a] = Inr [0x61, 0x0d, 0x0d, 0x0a]"
proof -
  have r: "repair [10] [0x61, 0x0d, 0x0a] = Inr [0x61, 0x0d, 0x0a]"
    by (simp add: repair_posix codec_eval)
  have l: "utf8_encode [13, 10] = Inr [0x0d, 0x0a]" by (simp add: codec_eval)
  from repair_newlines [OF r l] r l show ?thesis
    by (simp add: translate_newline_bytes_def)
qed

end
