(* ===== verification/Scan_Directory.thy ===== *)
theory Scan_Directory
  imports Fix_File "HOL-Library.Sublist"
begin

text \<open>
  \<^verbatim>\<open>scan_directory\<close> (lines 57-101 of \<^verbatim>\<open>src/fix_utf8.py\<close>): the walk over the directory
  tree with its two pruned directory names, the extension filter, the size ceiling, and
  the bookkeeping of the result dictionary. The directory tree is the listing that
  \<^verbatim>\<open>os.walk\<close> obtains from the operating system; the bytes of the files come from the
  file system of theory \<open>File_System\<close>, which \<^verbatim>\<open>fix_file\<close> changes while the walk goes on.
  The lemmas reduce the nested loops to one fold over the list of candidate paths
  (\<open>scan_directory_candidates\<close>) and prove the properties of the walk on that fold:
  the invariant of the counters, the frame, the result of a dry run, that the report
  depends on the candidate files only (\<open>agree_on\<close>), and what a fix run leaves on a
  file system without faults (\<open>repaired\<close>, \<open>fold_fix_posix\<close>).
\<close>

section \<open>Directory listings\<close>

text \<open>
  A directory as \<^verbatim>\<open>os.walk\<close> sees it: the names of its files and its subdirectories, in
  the order of the listing. A directory that the walk cannot list or does not descend
  into (a symbolic link, a missing directory) is a directory without entries.
\<close>

datatype dir_tree = Dir (dir_files: "string list") (dir_dirs: "(string \<times> dir_tree) list")

text \<open>\<^verbatim>\<open>os.path.join(a, b)\<close> on a POSIX system.\<close>

definition path_join :: "path \<Rightarrow> string \<Rightarrow> path" where
  "path_join a b =
     (if b \<noteq> [] \<and> hd b = CHR ''/'' then b
      else if a = [] \<or> last a = CHR ''/'' then a @ b
      else a @ ''/'' @ b)"

text \<open>\<^verbatim>\<open>if name in dirs: dirs.remove(name)\<close>: the first entry of that name goes.\<close>

fun remove_dir :: "string \<Rightarrow> (string \<times> 'a) list \<Rightarrow> (string \<times> 'a) list" where
  "remove_dir name [] = []"
| "remove_dir name (d # ds) = (if fst d = name then ds else d # remove_dir name ds)"

definition prune_dirs :: "(string \<times> 'a) list \<Rightarrow> (string \<times> 'a) list" where
  "prune_dirs dirs = remove_dir ''.git'' (remove_dir ''node_modules'' dirs)"

lemma set_remove_dir: "set (remove_dir name ds) \<subseteq> set ds"
  by (induction ds) auto

lemma set_prune_dirs: "set (prune_dirs ds) \<subseteq> set ds"
  unfolding prune_dirs_def
  by (rule subset_trans [OF set_remove_dir set_remove_dir])

lemma size_dir_entry:
  "(name, t) \<in> set dirs \<Longrightarrow> size t < Suc (size_list (size_prod (\<lambda>x. 0) size) dirs)"
  by (induction dirs) auto

text \<open>
  The pairs \<^verbatim>\<open>(root, files)\<close> that the loop of line 61 sees, top-down, the subdirectories
  that the body has left in \<^verbatim>\<open>dirs\<close> visited in the order of the listing.
\<close>

function walk :: "path \<Rightarrow> dir_tree \<Rightarrow> (path \<times> string list) list" where
  "walk root (Dir files dirs) =
     (root, files) # concat (map (\<lambda>(name, t). walk (path_join root name) t) (prune_dirs dirs))"
  by pat_completeness auto

termination
proof (relation "measure (\<lambda>(root, t). size t)")
  show "wf (measure (\<lambda>(root, t). size t))" by simp
next
  fix root :: path and files dirs x name and t :: dir_tree
  assume "x \<in> set (prune_dirs dirs)" and "(name, t) = x"
  with set_prune_dirs [of dirs] have "(name, t) \<in> set dirs" by auto
  from size_dir_entry [OF this]
  show "((path_join root name, t), (root, Dir files dirs)) \<in> measure (\<lambda>(root, t). size t)"
    by simp
qed

section \<open>The result dictionary and the state of the walk\<close>

record problem =
  problem_file :: path
  problem_issue :: issue
  problem_fix_result :: "fix_result option"

record results =
  issues_found :: nat
  files_scanned :: nat
  files_fixed :: nat
  problems :: "problem list"

text \<open>
  The state that the loops thread: the file system, the dictionary \<^verbatim>\<open>results\<close>, and the
  lines printed so far.
\<close>

record walk_state =
  ws_fs :: file_system
  ws_results :: results
  ws_output :: "string list"

definition init_results :: results where
  "init_results = \<lparr>issues_found = 0, files_scanned = 0, files_fixed = 0, problems = []\<rparr>"

definition init_state :: "file_system \<Rightarrow> walk_state" where
  "init_state fs = \<lparr>ws_fs = fs, ws_results = init_results, ws_output = []\<rparr>"

section \<open>The body of the loops\<close>

text \<open>Line 70: a file passes when the list of extensions is empty or one of them ends its name.\<close>

definition wanted :: "string list \<Rightarrow> string \<Rightarrow> bool" where
  "wanted extensions file \<longleftrightarrow>
     \<not> (extensions \<noteq> [] \<and> \<not> list_ex (\<lambda>ext. suffix ext file) extensions)"

definition size_limit :: nat where
  "size_limit = 1024 * 1024 * 5"

text \<open>Lines 77-81: a file whose size cannot be obtained, or is above the ceiling, is skipped.\<close>

definition skipped :: "file_system \<Rightarrow> path \<Rightarrow> bool" where
  "skipped fs file_path =
     (case getsize fs file_path of Inl e \<Rightarrow> True | Inr n \<Rightarrow> n > size_limit)"

text \<open>Lines 97 and 99: the two lines of immediate feedback.\<close>

definition issue_feedback :: "path \<Rightarrow> issue \<Rightarrow> string" where
  "issue_feedback file_path issue = ''Issue found in '' @ file_path @ '': '' @ issue_error issue"

definition fix_feedback :: "fix_result \<Rightarrow> string" where
  "fix_feedback fix_result = ''  Fix attempt: '' @ fix_status fix_result"

text \<open>Lines 85-99: an issue is counted, fixed when asked for, recorded and announced.\<close>

definition record_problem :: "bool \<Rightarrow> path \<Rightarrow> issue \<Rightarrow> walk_state \<Rightarrow> walk_state" where
  "record_problem fix file_path issue st =
     (let res = (ws_results st)\<lparr>issues_found := issues_found (ws_results st) + 1\<rparr>;
          feedback = issue_feedback file_path issue
      in if fix then
           (case fix_file (ws_fs st) file_path of
              (fix_result, fs') \<Rightarrow>
                \<lparr>ws_fs = fs',
                 ws_results = res
                   \<lparr>files_fixed :=
                      (if fix_status fix_result = ''fixed'' then files_fixed res + 1
                       else files_fixed res),
                    problems := problems res @
                      [\<lparr>problem_file = file_path, problem_issue = issue,
                        problem_fix_result = Some fix_result\<rparr>]\<rparr>,
                 ws_output = ws_output st @ [feedback, fix_feedback fix_result]\<rparr>)
         else
           \<lparr>ws_fs = ws_fs st,
            ws_results = res
              \<lparr>problems := problems res @
                 [\<lparr>problem_file = file_path, problem_issue = issue,
                   problem_fix_result = None\<rparr>]\<rparr>,
            ws_output = ws_output st @ [feedback]\<rparr>)"

text \<open>Line 74: \<^verbatim>\<open>results['files_scanned'] += 1\<close>\<close>

definition count_scanned :: "walk_state \<Rightarrow> walk_state" where
  "count_scanned st =
     st\<lparr>ws_results := (ws_results st)\<lparr>files_scanned := files_scanned (ws_results st) + 1\<rparr>\<rparr>"

text \<open>Lines 74-99: what happens to a path that has passed the extension filter.\<close>

definition visit_path :: "bool \<Rightarrow> path \<Rightarrow> walk_state \<Rightarrow> walk_state" where
  "visit_path fix file_path st =
     (let st1 = count_scanned st
      in if skipped (ws_fs st) file_path then st1
         else (case scan_file (ws_fs st) file_path of
                 None \<Rightarrow> st1
               | Some issue \<Rightarrow> record_problem fix file_path issue st1))"

text \<open>Lines 68-99: one iteration of the loop over the files of a directory.\<close>

definition visit_file :: "string list \<Rightarrow> bool \<Rightarrow> path \<Rightarrow> string \<Rightarrow> walk_state \<Rightarrow> walk_state"
  where
  "visit_file extensions fix root file st =
     (if wanted extensions file then visit_path fix (path_join root file) st else st)"

definition scan_directory ::
  "file_system \<Rightarrow> dir_tree \<Rightarrow> path \<Rightarrow> string list \<Rightarrow> bool \<Rightarrow> walk_state" where
  "scan_directory fs tree directory extensions fix =
     fold (\<lambda>(root, files). fold (visit_file extensions fix root) files)
       (walk directory tree) (init_state fs)"

section \<open>Specification of the walk\<close>

text \<open>
  The candidate paths, in the order in which the loops reach them; the directory that a
  chain of names leads to; listings in which no directory has two entries of one name;
  and what a dry run records for a path.
\<close>

definition candidates :: "string list \<Rightarrow> path \<Rightarrow> dir_tree \<Rightarrow> path list" where
  "candidates extensions directory tree =
     concat (map (\<lambda>(root, files). map (path_join root) (filter (wanted extensions) files))
       (walk directory tree))"

fun subtree :: "dir_tree \<Rightarrow> string list \<Rightarrow> dir_tree option" where
  "subtree t [] = Some t"
| "subtree (Dir files dirs) (name # names) =
     (case map_of dirs name of None \<Rightarrow> None | Some t \<Rightarrow> subtree t names)"

function well_listed :: "dir_tree \<Rightarrow> bool" where
  "well_listed (Dir files dirs) \<longleftrightarrow>
     distinct (map fst dirs) \<and> list_all (\<lambda>d. well_listed (snd d)) dirs"
  by pat_completeness auto

termination
proof (relation "measure size")
  show "wf (measure size)" by simp
next
  fix files :: "string list" and dirs :: "(string \<times> dir_tree) list" and d
  assume "d \<in> set dirs"
  then have "(fst d, snd d) \<in> set dirs" by simp
  from size_dir_entry [OF this] show "(snd d, Dir files dirs) \<in> measure size" by simp
qed

definition dry_problem :: "file_system \<Rightarrow> path \<Rightarrow> problem option" where
  "dry_problem fs p =
     (if skipped fs p then None
      else map_option
        (\<lambda>i. \<lparr>problem_file = p, problem_issue = i, problem_fix_result = None\<rparr>)
        (scan_file fs p))"

definition is_fixed :: "problem \<Rightarrow> bool" where
  "is_fixed p =
     (case problem_fix_result p of Some r \<Rightarrow> fix_status r = ''fixed'' | None \<Rightarrow> False)"

text \<open>
  The invariant of the result dictionary: the counters agree with the list of problems,
  no more issues than files, and a problem carries a fix result exactly in fix mode.
\<close>

definition results_ok :: "bool \<Rightarrow> results \<Rightarrow> bool" where
  "results_ok fix res \<longleftrightarrow>
     issues_found res = length (problems res)
     \<and> files_fixed res = length (filter is_fixed (problems res))
     \<and> issues_found res \<le> files_scanned res
     \<and> list_all (\<lambda>p. (problem_fix_result p \<noteq> None) = fix) (problems res)"

definition walk_ok :: "bool \<Rightarrow> walk_state \<Rightarrow> bool" where
  "walk_ok fix st \<longleftrightarrow>
     results_ok fix (ws_results st)
     \<and> length (ws_output st) = (if fix then 2 else 1) * issues_found (ws_results st)"

section \<open>The loops as one fold\<close>

lemma fold_visit_file:
  "fold (visit_file extensions fix root) files st
     = fold (visit_path fix) (map (path_join root) (filter (wanted extensions) files)) st"
  by (induction files arbitrary: st) (simp_all add: visit_file_def)

lemma fold_visit_dirs:
  "fold (\<lambda>(root, files). fold (visit_file extensions fix root) files) ws st
     = fold (visit_path fix)
         (concat (map (\<lambda>(root, files). map (path_join root) (filter (wanted extensions) files)) ws))
         st"
  by (induction ws arbitrary: st) (simp_all add: fold_visit_file split: prod.splits)

lemma scan_directory_candidates:
  "scan_directory fs tree directory extensions fix
     = fold (visit_path fix) (candidates extensions directory tree) (init_state fs)"
  by (simp add: scan_directory_def candidates_def fold_visit_dirs)

section \<open>One path\<close>

text \<open>The three ways through the body of the loop.\<close>

lemma visit_path_cases [case_names skipped clean problem]:
  obtains (skipped) "skipped (ws_fs st) p" "visit_path f p st = count_scanned st"
  | (clean) "\<not> skipped (ws_fs st) p" "scan_file (ws_fs st) p = None"
      "visit_path f p st = count_scanned st"
  | (problem) i where "\<not> skipped (ws_fs st) p" "scan_file (ws_fs st) p = Some i"
      "visit_path f p st = record_problem f p i (count_scanned st)"
  by (cases "skipped (ws_fs st) p"; cases "scan_file (ws_fs st) p")
    (auto simp: visit_path_def Let_def)

lemma count_scanned_sel [simp]:
  "ws_fs (count_scanned st) = ws_fs st"
  "ws_output (count_scanned st) = ws_output st"
  "issues_found (ws_results (count_scanned st)) = issues_found (ws_results st)"
  "files_scanned (ws_results (count_scanned st)) = Suc (files_scanned (ws_results st))"
  "files_fixed (ws_results (count_scanned st)) = files_fixed (ws_results st)"
  "problems (ws_results (count_scanned st)) = problems (ws_results st)"
  by (simp_all add: count_scanned_def)

lemma record_problem_dry:
  "record_problem False p i st =
     \<lparr>ws_fs = ws_fs st,
      ws_results = (ws_results st)
        \<lparr>issues_found := Suc (issues_found (ws_results st)),
         problems := problems (ws_results st) @
           [\<lparr>problem_file = p, problem_issue = i, problem_fix_result = None\<rparr>]\<rparr>,
      ws_output = ws_output st @ [issue_feedback p i]\<rparr>"
  by (simp add: record_problem_def)

lemma record_problem_sel [simp]:
  "issues_found (ws_results (record_problem fix p i st)) = Suc (issues_found (ws_results st))"
  "files_scanned (ws_results (record_problem fix p i st)) = files_scanned (ws_results st)"
  "ws_fs (record_problem fix p i st) = (if fix then snd (fix_file (ws_fs st) p) else ws_fs st)"
  "length (ws_output (record_problem fix p i st))
     = length (ws_output st) + (if fix then 2 else 1)"
  "problems (ws_results (record_problem fix p i st))
     = problems (ws_results st) @
         [\<lparr>problem_file = p, problem_issue = i,
           problem_fix_result = (if fix then Some (fst (fix_file (ws_fs st) p)) else None)\<rparr>]"
  "files_fixed (ws_results (record_problem fix p i st))
     = files_fixed (ws_results st)
       + (if fix \<and> fix_status (fst (fix_file (ws_fs st) p)) = ''fixed'' then 1 else 0)"
  by (simp_all add: record_problem_def Let_def split: prod.splits)

lemma visit_path_scanned [simp]:
  "files_scanned (ws_results (visit_path fix p st)) = Suc (files_scanned (ws_results st))"
  by (cases rule: visit_path_cases [where st = st and p = p and f = "fix"]) simp_all

lemma visit_path_dry_fs [simp]: "ws_fs (visit_path False p st) = ws_fs st"
  by (cases rule: visit_path_cases [where st = st and p = p and f = False]) simp_all

lemma visit_path_ok: "walk_ok fix st \<Longrightarrow> walk_ok fix (visit_path fix p st)"
  by (cases rule: visit_path_cases [where st = st and p = p and f = "fix"])
    (auto simp: walk_ok_def results_ok_def is_fixed_def)

lemma visit_path_frame:
  "q \<noteq> p \<Longrightarrow> q \<noteq> backup_path p \<Longrightarrow>
   fs_files (ws_fs (visit_path fix p st)) q = fs_files (ws_fs st) q"
  by (cases rule: visit_path_cases [where st = st and p = p and f = "fix"])
    (simp_all add: fix_file_frame)

section \<open>The fold over the candidates\<close>

lemma init_state_ok: "walk_ok fix (init_state fs)"
  by (simp add: walk_ok_def results_ok_def init_state_def init_results_def)

lemma fold_visit_ok: "walk_ok fix st \<Longrightarrow> walk_ok fix (fold (visit_path fix) ps st)"
  by (rule fold_invariant [where Q = "\<lambda>p. True"]) (simp_all add: visit_path_ok)

lemma fold_visit_scanned:
  "files_scanned (ws_results (fold (visit_path fix) ps st))
     = files_scanned (ws_results st) + length ps"
  by (induction ps arbitrary: st) simp_all

lemma fold_visit_frame:
  "q \<notin> set ps \<Longrightarrow> q \<notin> backup_path ` set ps \<Longrightarrow>
   fs_files (ws_fs (fold (visit_path fix) ps st)) q = fs_files (ws_fs st) q"
  by (induction ps arbitrary: st) (auto simp: visit_path_frame)

text \<open>A dry run, as a list comprehension over the paths.\<close>

definition dry_problems :: "file_system \<Rightarrow> path list \<Rightarrow> problem list" where
  "dry_problems fs ps = List.map_filter (dry_problem fs) ps"

definition problem_feedback :: "problem \<Rightarrow> string" where
  "problem_feedback p = issue_feedback (problem_file p) (problem_issue p)"

definition dry_state :: "walk_state \<Rightarrow> path list \<Rightarrow> walk_state" where
  "dry_state st ps =
     \<lparr>ws_fs = ws_fs st,
      ws_results =
        \<lparr>issues_found = issues_found (ws_results st) + length (dry_problems (ws_fs st) ps),
         files_scanned = files_scanned (ws_results st) + length ps,
         files_fixed = files_fixed (ws_results st),
         problems = problems (ws_results st) @ dry_problems (ws_fs st) ps\<rparr>,
      ws_output = ws_output st @ map problem_feedback (dry_problems (ws_fs st) ps)\<rparr>"

lemma dry_state_Nil [simp]: "dry_state st [] = st"
  by (simp add: dry_state_def dry_problems_def List.map_filter_simps)

lemma dry_state_Cons: "dry_state st (p # ps) = dry_state (visit_path False p st) ps"
  by (cases rule: visit_path_cases [where st = st and p = p and f = False])
    (simp_all add: dry_state_def dry_problems_def dry_problem_def List.map_filter_simps
      record_problem_dry problem_feedback_def)

lemma fold_visit_dry: "fold (visit_path False) ps st = dry_state st ps"
  by (induction ps arbitrary: st) (simp_all add: dry_state_Cons)

text \<open>Paths without an issue only move the counter of scanned files.\<close>

definition clean_path :: "file_system \<Rightarrow> path \<Rightarrow> bool" where
  "clean_path fs p \<longleftrightarrow> skipped fs p \<or> scan_file fs p = None"

lemma visit_path_clean: "clean_path (ws_fs st) p \<Longrightarrow> visit_path fix p st = count_scanned st"
  by (cases rule: visit_path_cases [where st = st and p = p and f = "fix"])
    (simp_all add: clean_path_def)

lemma fold_visit_clean:
  "list_all (clean_path (ws_fs st)) ps \<Longrightarrow>
   fold (visit_path fix) ps st
     = st\<lparr>ws_results :=
           (ws_results st)\<lparr>files_scanned := files_scanned (ws_results st) + length ps\<rparr>\<rparr>"
proof (induction ps arbitrary: st)
  case Nil
  show ?case by simp
next
  case (Cons p ps)
  from Cons.prems have v: "visit_path fix p st = count_scanned st"
    and r: "list_all (clean_path (ws_fs (count_scanned st))) ps"
    by (simp_all add: visit_path_clean)
  from Cons.IH [OF r] show ?case by (simp add: v count_scanned_def)
qed

lemma scan_directory_ok: "walk_ok fix (scan_directory fs tree directory extensions fix)"
  unfolding scan_directory_candidates by (rule fold_visit_ok [OF init_state_ok])

lemma scan_directory_dry_fs: "ws_fs (scan_directory fs tree directory extensions False) = fs"
  by (simp add: scan_directory_candidates fold_visit_dry dry_state_def init_state_def)

text \<open>Every line printed during the walk is one of the two feedback lines.\<close>

definition feedback_line :: "string \<Rightarrow> bool" where
  "feedback_line l \<longleftrightarrow> prefix ''Issue found in '' l \<or> prefix ''  Fix attempt: '' l"

lemma visit_path_output:
  "list_all feedback_line (ws_output st) \<Longrightarrow>
   list_all feedback_line (ws_output (visit_path fix p st))"
  by (cases rule: visit_path_cases [where st = st and p = p and f = "fix"])
    (simp_all add: record_problem_def Let_def feedback_line_def issue_feedback_def
      fix_feedback_def split: prod.splits)

lemma scan_directory_output:
  "list_all feedback_line (ws_output (scan_directory fs tree directory extensions fix))"
  unfolding scan_directory_candidates
  by (rule fold_invariant [where Q = "\<lambda>p. True"])
    (simp_all add: visit_path_output init_state_def)

section \<open>Which directories the walk reaches\<close>

definition excluded_names :: "string set" where
  "excluded_names = {''node_modules'', ''.git''}"

lemma remove_dir_distinct:
  "distinct (map fst ds) \<Longrightarrow>
   set (remove_dir name ds) = {d \<in> set ds. fst d \<noteq> name}
   \<and> distinct (map fst (remove_dir name ds))"
  by (induction ds) (auto simp: rev_image_eqI)

lemma set_prune_dirs_distinct:
  "distinct (map fst ds) \<Longrightarrow> set (prune_dirs ds) = {d \<in> set ds. fst d \<notin> excluded_names}"
  using remove_dir_distinct [of ds "''node_modules''"]
    remove_dir_distinct [of "remove_dir ''node_modules'' ds" "''.git''"]
  by (auto simp: prune_dirs_def excluded_names_def)

lemma well_listed_entry:
  "well_listed (Dir files dirs) \<Longrightarrow> (name, t) \<in> set dirs \<Longrightarrow> well_listed t"
  by (auto simp: list_all_iff)

lemma walk_sound:
  "well_listed tree \<Longrightarrow> (r, fs) \<in> set (walk directory tree) \<Longrightarrow>
   \<exists>names dirs. set names \<inter> excluded_names = {} \<and> subtree tree names = Some (Dir fs dirs)
      \<and> r = foldl path_join directory names"
proof (induction directory tree arbitrary: r fs rule: walk.induct)
  case (1 root files dirs)
  from "1.prems"(1) have d: "distinct (map fst dirs)" by simp
  from "1.prems"(2) consider "r = root" "fs = files"
    | name t where "(name, t) \<in> set (prune_dirs dirs)"
        "(r, fs) \<in> set (walk (path_join root name) t)"
    by auto
  then show ?case
  proof cases
    case 1
    then show ?thesis by (intro exI [of _ "[]"] exI [of _ dirs]) simp
  next
    case (2 name t)
    from 2(1) d have e: "(name, t) \<in> set dirs" "name \<notin> excluded_names"
      by (simp_all add: set_prune_dirs_distinct)
    from "1.prems"(1) e(1) have "well_listed t" by (rule well_listed_entry)
    from "1.IH" [OF 2(1) refl this 2(2)] obtain names dirs' where
      n: "set names \<inter> excluded_names = {}" "subtree t names = Some (Dir fs dirs')"
        "r = foldl path_join (path_join root name) names"
      by blast
    from d e n show ?thesis
      by (intro exI [of _ "name # names"] exI [of _ dirs']) simp
  qed
qed

lemma walk_complete:
  "well_listed tree \<Longrightarrow> set names \<inter> excluded_names = {} \<Longrightarrow>
   subtree tree names = Some (Dir fs dirs') \<Longrightarrow>
   (foldl path_join directory names, fs) \<in> set (walk directory tree)"
proof (induction names arbitrary: tree directory)
  case Nil
  then show ?case by simp
next
  case (Cons name names)
  obtain files dirs where tree: "tree = Dir files dirs" by (cases tree)
  from Cons.prems(3) obtain t where t: "map_of dirs name = Some t"
    and sub: "subtree t names = Some (Dir fs dirs')"
    by (auto simp: tree split: option.splits)
  from Cons.prems(1) have d: "distinct (map fst dirs)" by (simp add: tree)
  from t have e: "(name, t) \<in> set dirs" by (rule map_of_SomeD)
  with Cons.prems(1) have wl: "well_listed t" unfolding tree by (rule well_listed_entry)
  from e d Cons.prems(2) have p: "(name, t) \<in> set (prune_dirs dirs)"
    by (simp add: set_prune_dirs_distinct)
  from Cons.prems(2) have "set names \<inter> excluded_names = {}" by auto
  from Cons.IH [OF wl this sub, of "path_join directory name"] p show ?case
    by (auto simp: tree intro!: bexI [of _ "(name, t)"])
qed

section \<open>The report depends on the candidate files only\<close>

text \<open>
  Two file systems with the same faults and line separator whose contents agree on a
  set of paths. Every operation of the program keeps the agreement when it is applied
  to both, and returns the same result on both when the path it reads is in the set.
\<close>

definition agree_on :: "path set \<Rightarrow> file_system \<Rightarrow> file_system \<Rightarrow> bool" where
  "agree_on S fs fs' \<longleftrightarrow>
     fs_read_fault fs = fs_read_fault fs' \<and> fs_write_fault fs = fs_write_fault fs'
     \<and> fs_linesep fs = fs_linesep fs' \<and> (\<forall>p\<in>S. fs_files fs p = fs_files fs' p)"

definition same_report :: "walk_state \<Rightarrow> walk_state \<Rightarrow> bool" where
  "same_report st st' \<longleftrightarrow> ws_results st = ws_results st' \<and> ws_output st = ws_output st'"

lemma agree_put: "agree_on S fs fs' \<Longrightarrow> agree_on S (put_file fs q d) (put_file fs' q d)"
  by (simp add: agree_on_def put_file_def)

lemma write_file_agree:
  assumes "agree_on S fs fs'"
  shows "fst (write_file fs q d) = fst (write_file fs' q d)"
    and "agree_on S (snd (write_file fs q d)) (snd (write_file fs' q d))"
proof -
  from assms have "fs_write_fault fs q = fs_write_fault fs' q" by (simp add: agree_on_def)
  with assms show "fst (write_file fs q d) = fst (write_file fs' q d)"
    "agree_on S (snd (write_file fs q d)) (snd (write_file fs' q d))"
    by (simp_all add: write_file_def agree_put split: option.splits write_fault.splits)
qed

lemma write_text_agree:
  assumes "agree_on S fs fs'"
  shows "fst (write_text fs q s) = fst (write_text fs' q s)"
    and "agree_on S (snd (write_text fs q s)) (snd (write_text fs' q s))"
proof -
  from assms have "fs_write_fault fs q = fs_write_fault fs' q" "fs_linesep fs = fs_linesep fs'"
    by (simp_all add: agree_on_def)
  with assms show "fst (write_text fs q s) = fst (write_text fs' q s)"
    "agree_on S (snd (write_text fs q s)) (snd (write_text fs' q s))"
    by (simp_all add: write_text_def agree_put
        split: option.splits write_fault.splits sum.splits)
qed

lemma read_file_agree:
  "agree_on S fs fs' \<Longrightarrow> p \<in> S \<Longrightarrow> fs_files fs p \<noteq> None \<Longrightarrow>
   read_file fs p = read_file fs' p"
  by (auto simp: agree_on_def read_file_def split: option.splits)

lemma fix_file_agree:
  assumes "agree_on S fs fs'" and "p \<in> S" and "fs_files fs p \<noteq> None"
  shows "fst (fix_file fs p) = fst (fix_file fs' p)"
    and "agree_on S (snd (fix_file fs p)) (snd (fix_file fs' p))"
proof -
  note r = read_file_agree [OF assms]
  have "fst (fix_file fs p) = fst (fix_file fs' p)
        \<and> agree_on S (snd (fix_file fs p)) (snd (fix_file fs' p))"
  proof (cases "read_file fs' p")
    case (Inl e)
    with r assms(1) show ?thesis by (simp add: fix_file_def)
  next
    case (Inr c)
    let ?w = "write_file fs (backup_path p) c" and ?w' = "write_file fs' (backup_path p) c"
    let ?t = "write_text (snd ?w) p (fixed_content c)"
    let ?t' = "write_text (snd ?w') p (fixed_content c)"
    note w = write_file_agree [OF assms(1), of "backup_path p" c]
    note t = write_text_agree [OF w(2), of p "fixed_content c"]
    from r Inr w t show ?thesis
      by (simp add: fix_file_def case_prod_beta split: sum.splits)
  qed
  then show "fst (fix_file fs p) = fst (fix_file fs' p)"
    "agree_on S (snd (fix_file fs p)) (snd (fix_file fs' p))" by simp_all
qed

lemma skipped_agree: "agree_on S fs fs' \<Longrightarrow> p \<in> S \<Longrightarrow> skipped fs p = skipped fs' p"
  by (simp add: skipped_def getsize_def agree_on_def split: option.splits)

lemma not_skipped_exists: "\<not> skipped fs p \<Longrightarrow> fs_files fs p \<noteq> None"
  by (auto simp: skipped_def getsize_def split: option.splits)

lemma scan_file_agree:
  "agree_on S fs fs' \<Longrightarrow> p \<in> S \<Longrightarrow> \<not> skipped fs p \<Longrightarrow> scan_file fs p = scan_file fs' p"
  by (simp add: scan_file_def read_file_agree not_skipped_exists)

lemma visit_path_agree:
  assumes "agree_on S (ws_fs st) (ws_fs st')" and "same_report st st'" and "p \<in> S"
  shows "agree_on S (ws_fs (visit_path fix p st)) (ws_fs (visit_path fix p st'))
         \<and> same_report (visit_path fix p st) (visit_path fix p st')"
proof (cases "skipped (ws_fs st) p")
  case True
  with assms skipped_agree [OF assms(1,3)] show ?thesis
    by (simp add: visit_path_def same_report_def count_scanned_def)
next
  case False
  note f = fix_file_agree [OF assms(1,3) not_skipped_exists [OF False]]
  from False assms skipped_agree [OF assms(1,3)] scan_file_agree [OF assms(1,3) False] f
  show ?thesis
    by (simp add: visit_path_def same_report_def count_scanned_def record_problem_def
        case_prod_beta Let_def split: option.splits)
qed

lemma fold_visit_agree:
  "agree_on S (ws_fs st) (ws_fs st') \<Longrightarrow> same_report st st' \<Longrightarrow> set ps \<subseteq> S \<Longrightarrow>
   agree_on S (ws_fs (fold (visit_path fix) ps st)) (ws_fs (fold (visit_path fix) ps st'))
   \<and> same_report (fold (visit_path fix) ps st) (fold (visit_path fix) ps st')"
proof (induction ps arbitrary: st st')
  case Nil
  then show ?case by simp
next
  case (Cons p ps)
  from Cons.prems have "p \<in> S" "set ps \<subseteq> S" by simp_all
  from visit_path_agree [OF Cons.prems(1,2) this(1), of "fix"] Cons.IH this(2)
  show ?case by simp
qed

section \<open>Fix mode on a file system without faults\<close>

text \<open>
  On \<open>posix_fs\<close> every fix succeeds, and whether a path is clean depends on its own
  bytes only.
\<close>

lemma clean_path_posix:
  "clean_path (posix_fs f) p \<longleftrightarrow>
     (case f p of None \<Rightarrow> True | Some c \<Rightarrow> size_limit < length c \<or> scan_content c = None)"
  by (simp add: clean_path_def skipped_def getsize_def scan_file_def read_file_posix
      split: option.splits)

lemma repair_clean: "repair [10] content = Inr data \<Longrightarrow> scan_content data = None"
  using repair_decodes [of "[10]" content data] by (simp add: scan_content_None_iff)

text \<open>One iteration in fix mode on a file system without faults, for an invalid file.\<close>

lemma visit_path_posix_fix:
  assumes "ws_fs st = posix_fs files" and "files p = Some content"
    and "length content \<le> size_limit"
    and "scan_content content = Some i" and "repair [10] content = Inr data"
  shows "visit_path True p st =
     \<lparr>ws_fs = posix_fs (files(backup_path p \<mapsto> content, p \<mapsto> data)),
      ws_results =
        \<lparr>issues_found = Suc (issues_found (ws_results st)),
         files_scanned = Suc (files_scanned (ws_results st)),
         files_fixed = Suc (files_fixed (ws_results st)),
         problems = problems (ws_results st) @
           [\<lparr>problem_file = p, problem_issue = i,
             problem_fix_result = Some (Fixed (backup_path p))\<rparr>]\<rparr>,
      ws_output = ws_output st @ [issue_feedback p i, fix_feedback (Fixed (backup_path p))]\<rparr>"
proof -
  from assms(1-3) have s: "\<not> skipped (ws_fs st) p" by (simp add: skipped_def getsize_def)
  from assms(1,2,4) have i: "scan_file (ws_fs st) p = Some i"
    by (simp add: scan_file_def read_file_posix)
  from assms(1,2,5) have f: "fix_file (ws_fs st) p
      = (Fixed (backup_path p), posix_fs (files(backup_path p \<mapsto> content, p \<mapsto> data)))"
    by (simp add: fix_file_ok [where content = content and data = data] read_file_posix)
  from s i f show ?thesis
    by (simp add: visit_path_def record_problem_def count_scanned_def Let_def)
qed

text \<open>One iteration on a file system without faults, for a valid file.\<close>

lemma visit_path_posix_clean:
  assumes "ws_fs st = posix_fs files" and "files p = Some content"
    and "length content \<le> size_limit" and "decode_utf8 content = Inr s"
  shows "visit_path fix p st = count_scanned st"
  using assms
  by (simp add: visit_path_def skipped_def getsize_def scan_file_def read_file_posix
      scan_content_def)

text \<open>The two ways through one iteration, with the files it leaves.\<close>

lemma visit_path_posix [case_names clean fixed]:
  assumes "ws_fs st = posix_fs f"
  obtains (clean) "clean_path (posix_fs f) p" "visit_path True p st = count_scanned st"
  | (fixed) content data where "f p = Some content" "\<not> clean_path (posix_fs f) p"
      "repair [10] content = Inr data"
      "ws_fs (visit_path True p st) = posix_fs (f(backup_path p \<mapsto> content, p \<mapsto> data))"
      "issues_found (ws_results (visit_path True p st)) = Suc (issues_found (ws_results st))"
      "files_fixed (ws_results (visit_path True p st)) = Suc (files_fixed (ws_results st))"
proof (cases "clean_path (posix_fs f) p")
  case True
  with assms show ?thesis by (intro clean) (simp_all add: visit_path_clean)
next
  case False
  then obtain content i where c: "f p = Some content" "length content \<le> size_limit"
    "scan_content content = Some i"
    by (auto simp: clean_path_posix split: option.splits)
  obtain data where d: "repair [10] content = Inr data"
    using repair_total [of "[10]" content] by (auto simp: is_scalar_def)
  from visit_path_posix_fix [OF assms c d] c(1) False d show ?thesis
    by (intro fixed [of content data]) simp_all
qed

text \<open>
  What a fix run owes to a path, between the files \<open>f\<close> before and \<open>g\<close> after it: a clean
  file is as it was; of any other, the old bytes are in the backup and the file holds
  their repair.
\<close>

definition repaired :: "(path \<rightharpoonup> bytes) \<Rightarrow> (path \<rightharpoonup> bytes) \<Rightarrow> path \<Rightarrow> bool" where
  "repaired f g p =
     (if clean_path (posix_fs f) p then g p = f p
      else g (backup_path p) = f p
           \<and> map_option (repair [10]) (f p) = map_option Inr (g p))"

definition dirty :: "(path \<rightharpoonup> bytes) \<Rightarrow> path list \<Rightarrow> path list" where
  "dirty f ps = filter (\<lambda>p. \<not> clean_path (posix_fs f) p) ps"

text \<open>No path of the list is the backup of another, and none comes twice.\<close>

definition separate :: "path list \<Rightarrow> bool" where
  "separate ps \<longleftrightarrow> distinct ps \<and> list_all (\<lambda>p. backup_path p \<notin> set ps) ps"

lemma separate_Cons:
  "separate (p # ps) \<Longrightarrow>
   separate ps \<and> p \<notin> set ps \<and> backup_path p \<notin> set ps \<and> p \<notin> backup_path ` set ps"
  by (auto simp: separate_def list_all_iff)

lemma repaired_clean: "repaired f g p \<Longrightarrow> clean_path (posix_fs g) p"
  by (auto simp: repaired_def clean_path_posix repair_clean split: option.splits if_splits)

lemma clean_path_upd:
  "q \<noteq> p \<Longrightarrow> q \<noteq> backup_path p \<Longrightarrow>
   clean_path (posix_fs (f(backup_path p \<mapsto> c, p \<mapsto> d))) q = clean_path (posix_fs f) q"
  by (simp add: clean_path_posix)

lemma repaired_upd:
  "q \<noteq> p \<Longrightarrow> q \<noteq> backup_path p \<Longrightarrow>
   repaired (f(backup_path p \<mapsto> c, p \<mapsto> d)) g q = repaired f g q"
  by (simp add: repaired_def clean_path_upd)

lemma dirty_upd:
  assumes "p \<notin> set ps" and "backup_path p \<notin> set ps"
  shows "dirty (f(backup_path p \<mapsto> c, p \<mapsto> d)) ps = dirty f ps"
  unfolding dirty_def
proof (rule filter_cong [OF refl])
  fix q assume "q \<in> set ps"
  with assms have "q \<noteq> p" "q \<noteq> backup_path p" by auto
  then show "(\<not> clean_path (posix_fs (f(backup_path p \<mapsto> c, p \<mapsto> d))) q)
             = (\<not> clean_path (posix_fs f) q)"
    by (simp add: clean_path_upd)
qed

text \<open>
  The loop in fix mode, over paths that are \<open>separate\<close>: the file system stays free of
  faults, every path is repaired, and both counters go up by the number of files that
  were not clean.
\<close>

definition fix_run_ok :: "(path \<rightharpoonup> bytes) \<Rightarrow> path list \<Rightarrow> walk_state \<Rightarrow> walk_state \<Rightarrow> bool"
  where
  "fix_run_ok f ps st st' \<longleftrightarrow>
     ws_fs st' = posix_fs (fs_files (ws_fs st'))
     \<and> list_all (repaired f (fs_files (ws_fs st'))) ps
     \<and> issues_found (ws_results st') = issues_found (ws_results st) + length (dirty f ps)
     \<and> files_fixed (ws_results st') = files_fixed (ws_results st) + length (dirty f ps)"

lemma fix_run_step_clean:
  assumes "ws_fs st = posix_fs f" and "clean_path (posix_fs f) p"
    and "fix_run_ok f ps (count_scanned st) st'"
    and "fs_files (ws_fs st') p = f p"
  shows "fix_run_ok f (p # ps) st st'"
  using assms by (simp add: fix_run_ok_def repaired_def dirty_def count_scanned_def)

lemma fix_run_step_fixed:
  assumes "f p = Some content" and "\<not> clean_path (posix_fs f) p"
    and "repair [10] content = Inr data"
    and "issues_found (ws_results st1) = Suc (issues_found (ws_results st))"
    and "files_fixed (ws_results st1) = Suc (files_fixed (ws_results st))"
    and "fix_run_ok (f(backup_path p \<mapsto> content, p \<mapsto> data)) ps st1 st'"
    and "p \<notin> set ps" and "backup_path p \<notin> set ps"
    and "fs_files (ws_fs st') p = Some data"
    and "fs_files (ws_fs st') (backup_path p) = Some content"
  shows "fix_run_ok f (p # ps) st st'"
proof -
  from assms(7,8) have "\<forall>q\<in>set ps. q \<noteq> p \<and> q \<noteq> backup_path p" by auto
  with assms(6) have "list_all (repaired f (fs_files (ws_fs st'))) ps"
    by (simp add: fix_run_ok_def list_all_iff repaired_upd)
  moreover from assms(2) have "dirty f (p # ps) = p # dirty f ps" by (simp add: dirty_def)
  ultimately show ?thesis
    using assms(1-6,9,10) dirty_upd [OF assms(7,8), of f content data]
    by (simp add: fix_run_ok_def repaired_def)
qed

lemma fold_fix_posix:
  "ws_fs st = posix_fs f \<Longrightarrow> separate ps \<Longrightarrow>
   fix_run_ok f ps st (fold (visit_path True) ps st)"
proof (induction ps arbitrary: st f)
  case Nil
  then show ?case by (simp add: fix_run_ok_def dirty_def)
next
  case (Cons p ps)
  let ?st' = "fold (visit_path True) ps (visit_path True p st)"
  note s = separate_Cons [OF Cons.prems(2)]
  from s have frame: "fs_files (ws_fs ?st') p = fs_files (ws_fs (visit_path True p st)) p"
    "fs_files (ws_fs ?st') (backup_path p)
       = fs_files (ws_fs (visit_path True p st)) (backup_path p)"
    by (simp_all add: fold_visit_frame image_iff)
  from Cons.prems(1) show ?case
  proof (cases rule: visit_path_posix [where p = p])
    case clean
    with Cons.prems(1) s frame Cons.IH [of "count_scanned st" f] show ?thesis
      by (intro fix_run_step_clean [where f = f]) (simp_all add: count_scanned_def)
  next
    case (fixed content data)
    from s have n: "p \<notin> set ps" "backup_path p \<notin> set ps" by simp_all
    from frame fixed(4) have l: "fs_files (ws_fs ?st') p = Some data"
      "fs_files (ws_fs ?st') (backup_path p) = Some content" by simp_all
    from s have "separate ps" ..
    from fix_run_step_fixed [OF fixed(1,2,3,5,6) Cons.IH [OF fixed(4) this] n l]
    show ?thesis by simp
  qed
qed

section \<open>Examples\<close>

text \<open>
  A tree with a version-control directory at the top and a \<^verbatim>\<open>node_modules\<close> directory
  further down, and a file system for it on which \<^verbatim>\<open>./a.txt\<close> holds the invalid bytes of
  \<open>hello_ff\<close>.
\<close>

definition demo_tree :: dir_tree where
  "demo_tree =
     Dir [''a.txt'', ''b.bin'']
       [(''.git'', Dir [''c.txt''] []),
        (''sub'', Dir [''d.txt''] [(''node_modules'', Dir [''e.txt''] [])])]"

definition demo_fs :: file_system where
  "demo_fs = posix_fs
     [''./a.txt'' \<mapsto> hello_ff, ''./b.bin'' \<mapsto> [0xff], ''./sub/d.txt'' \<mapsto> [0x48, 0x69],
      ''./.git/c.txt'' \<mapsto> [0xff]]"

lemmas walk_eval = prune_dirs_def path_join_def wanted_def suffix_to_prefix

lemma walk_demo:
  "walk ''.'' demo_tree = [(''.'', [''a.txt'', ''b.bin'']), (''./sub'', [''d.txt''])]"
  by (simp add: demo_tree_def walk_eval)

lemma candidates_demo: "candidates [''.txt''] ''.'' demo_tree = [''./a.txt'', ''./sub/d.txt'']"
  by (simp add: candidates_def walk_demo) (simp add: walk_eval)

lemma well_listed_demo: "well_listed demo_tree"
  by (simp add: demo_tree_def)

text \<open>
  A directory that lists \<^verbatim>\<open>x.bak\<close> before \<^verbatim>\<open>x\<close>, both files invalid.
\<close>

definition clobber_tree :: dir_tree where
  "clobber_tree = Dir [''x.bak'', ''x''] []"

definition clobber_fs :: file_system where
  "clobber_fs = posix_fs [''d/x.bak'' \<mapsto> [0xff], ''d/x'' \<mapsto> [0xfe]]"

lemma decode_single_ff:
  "decode_utf8 [0xff] = Inl \<lparr>ude_start = 0, ude_end = 1, ude_reason = InvalidStartByte\<rparr>"
  "decode_utf8 [0xfe] = Inl \<lparr>ude_start = 0, ude_end = 1, ude_reason = InvalidStartByte\<rparr>"
  by (simp_all add: codec_eval)

lemma repair_single_ff:
  "repair [10] [0xff] = Inr [0xef, 0xbf, 0xbd]" "repair [10] [0xfe] = Inr [0xef, 0xbf, 0xbd]"
  by (simp_all add: repair_posix codec_eval)

section \<open>Properties of the walk\<close>

text \<open>
  C5. When \<^verbatim>\<open>scan_directory\<close> returns, the counters agree with the list of problems:
  \<^verbatim>\<open>issues_found\<close> is its length, \<^verbatim>\<open>files_fixed\<close> is the number of problems whose fix
  result has status \<^verbatim>\<open>fixed\<close>, hence at most \<^verbatim>\<open>issues_found\<close>, which is at most
  \<^verbatim>\<open>files_scanned\<close>; a problem carries a fix result exactly in fix mode; and one line
  (two in fix mode) has been printed per problem.
\<close>

theorem scan_directory_invariant:
  "walk_ok fix (scan_directory fs tree directory extensions fix)
   \<and> files_fixed (ws_results (scan_directory fs tree directory extensions fix))
       \<le> issues_found (ws_results (scan_directory fs tree directory extensions fix))"
proof -
  have ok: "walk_ok fix (scan_directory fs tree directory extensions fix)"
    by (rule scan_directory_ok)
  moreover from ok have "files_fixed (ws_results (scan_directory fs tree directory extensions fix))
       \<le> issues_found (ws_results (scan_directory fs tree directory extensions fix))"
    by (simp add: walk_ok_def results_ok_def)
  ultimately show ?thesis by simp
qed

text \<open>
  C9. In a tree where no directory lists a name twice, the loop of \<^verbatim>\<open>scan_directory\<close>
  sees exactly the directories that are reached from the top through directory names
  other than \<^verbatim>\<open>node_modules\<close> and \<^verbatim>\<open>.git\<close>: nothing below a directory of these names,
  and everything else.
\<close>

theorem walk_reaches:
  assumes "well_listed tree"
  shows "(root, files) \<in> set (walk directory tree) \<longleftrightarrow>
         (\<exists>names dirs. set names \<inter> excluded_names = {}
            \<and> subtree tree names = Some (Dir files dirs)
            \<and> root = foldl path_join directory names)"
  using walk_sound [OF assms] walk_complete [OF assms] by blast

theorem walk_reaches_witness:
  "well_listed demo_tree
   \<and> walk ''.'' demo_tree = [(''.'', [''a.txt'', ''b.bin'']), (''./sub'', [''d.txt''])]
   \<and> (\<exists>names dirs. set names \<inter> excluded_names = {}
        \<and> subtree demo_tree names = Some (Dir [''d.txt''] dirs)
        \<and> ''./sub'' = foldl path_join ''.'' names)"
  using walk_reaches [OF well_listed_demo, of "''./sub''" "[''d.txt'']" "''.''"]
  by (simp add: walk_demo well_listed_demo)

text \<open>
  C10. A run without \<^verbatim>\<open>fix\<close> is the list comprehension it looks like: the file system is
  unchanged, \<^verbatim>\<open>files_scanned\<close> is the number of candidate paths, the problems are the
  issues of the candidates that are not skipped for their size, in the order of the
  walk and without fix results, and one line is printed for each.
\<close>

theorem scan_directory_dry_run:
  "scan_directory fs tree directory extensions False =
     \<lparr>ws_fs = fs,
      ws_results =
        \<lparr>issues_found = length (dry_problems fs (candidates extensions directory tree)),
         files_scanned = length (candidates extensions directory tree),
         files_fixed = 0,
         problems = dry_problems fs (candidates extensions directory tree)\<rparr>,
      ws_output =
        map problem_feedback (dry_problems fs (candidates extensions directory tree))\<rparr>"
  by (simp add: scan_directory_candidates fold_visit_dry dry_state_def init_state_def
      init_results_def)

text \<open>
  C15. \<^verbatim>\<open>scan_directory\<close> changes no file that is neither a candidate path nor the
  backup path of one.
\<close>

theorem scan_directory_frame:
  assumes "q \<notin> set (candidates extensions directory tree)"
    and "q \<notin> backup_path ` set (candidates extensions directory tree)"
  shows "fs_files (ws_fs (scan_directory fs tree directory extensions fix)) q = fs_files fs q"
  using fold_visit_frame [OF assms] by (simp add: scan_directory_candidates init_state_def)

theorem scan_directory_frame_witness:
  "''./b.bin'' \<notin> set (candidates [''.txt''] ''.'' demo_tree)
   \<and> ''./b.bin'' \<notin> backup_path ` set (candidates [''.txt''] ''.'' demo_tree)
   \<and> fs_files (ws_fs (scan_directory demo_fs demo_tree ''.'' [''.txt''] True)) ''./b.bin''
       = Some [0xff]"
  using scan_directory_frame [of "''./b.bin''" "[''.txt'']" "''.''" demo_tree demo_fs True]
  by (simp add: candidates_demo backup_path_def demo_fs_def)

text \<open>
  C25. \<^verbatim>\<open>files_scanned\<close> counts the candidate paths, that is every file that passes the
  extension filter: also those that are then skipped for their size or because their
  size cannot be obtained.
\<close>

theorem scan_directory_files_scanned:
  "files_scanned (ws_results (scan_directory fs tree directory extensions fix))
     = length (candidates extensions directory tree)"
  by (simp add: scan_directory_candidates fold_visit_scanned init_state_def init_results_def)

text \<open>
  C26. A file above the size ceiling of 5 MiB, and a file whose size cannot be
  obtained, is neither read nor reported nor fixed; it is counted as scanned.
\<close>

theorem visit_path_skipped:
  assumes "fs_files (ws_fs st) p = None
           \<or> (\<exists>content. fs_files (ws_fs st) p = Some content \<and> size_limit < length content)"
  shows "visit_path fix p st = count_scanned st"
proof -
  from assms have "skipped (ws_fs st) p" by (auto simp: skipped_def getsize_def)
  then show ?thesis by (simp add: visit_path_def)
qed

theorem visit_path_skipped_witness:
  "fs_files (posix_fs [''big'' \<mapsto> replicate (Suc size_limit) 0xff]) ''big''
     = Some (replicate (Suc size_limit) 0xff)
   \<and> size_limit < length (replicate (Suc size_limit) (0xff :: byte))
   \<and> visit_path True ''big'' (init_state (posix_fs [''big'' \<mapsto> replicate (Suc size_limit) 0xff]))
       = count_scanned (init_state (posix_fs [''big'' \<mapsto> replicate (Suc size_limit) 0xff]))"
  using visit_path_skipped
    [of "init_state (posix_fs [''big'' \<mapsto> replicate (Suc size_limit) 0xff])" "''big''" True]
  by (simp add: init_state_def)

text \<open>
  C23. A file that is there and below the size ceiling but cannot be read (no
  permission, an I/O error) does not stop the walk: it is counted as scanned and as
  an issue, recorded with the text of the exception behind \<^verbatim>\<open>Failed to process file: \<close>,
  and announced; in fix mode the fix fails on the same error, is recorded with status
  \<^verbatim>\<open>error\<close>, and neither the file nor a backup is written.
\<close>

theorem visit_path_unreadable:
  assumes "fs_files (ws_fs st) p = Some content" and "length content \<le> size_limit"
    and "fs_read_fault (ws_fs st) p = Some e"
  shows "visit_path fix p st =
     \<lparr>ws_fs = ws_fs st,
      ws_results =
        \<lparr>issues_found = Suc (issues_found (ws_results st)),
         files_scanned = Suc (files_scanned (ws_results st)),
         files_fixed = files_fixed (ws_results st),
         problems = problems (ws_results st) @
           [\<lparr>problem_file = p,
             problem_issue = ProcessIssue (''Failed to process file: '' @ os_message e),
             problem_fix_result = (if fix then Some (FixError (ReadFailed e)) else None)\<rparr>]\<rparr>,
      ws_output = ws_output st @
        (''Issue found in '' @ p @ '': Failed to process file: '' @ os_message e)
        # (if fix then [''  Fix attempt: error''] else [])\<rparr>"
proof -
  from assms have r: "read_file (ws_fs st) p = Inl e" by (simp add: read_file_def)
  from assms have "\<not> skipped (ws_fs st) p" by (simp add: skipped_def getsize_def)
  with r show ?thesis
    by (simp add: visit_path_def scan_file_def fix_file_def record_problem_def
        count_scanned_def issue_feedback_def fix_feedback_def Let_def)
qed

theorem visit_path_unreadable_witness:
  "visit_path True ''x''
     (init_state ((posix_fs [''x'' \<mapsto> [0x61]])
        \<lparr>fs_read_fault := [''x'' \<mapsto> \<lparr>os_errno = 13, os_message = ''Permission denied''\<rparr>]\<rparr>))
   = \<lparr>ws_fs = (posix_fs [''x'' \<mapsto> [0x61]])
        \<lparr>fs_read_fault := [''x'' \<mapsto> \<lparr>os_errno = 13, os_message = ''Permission denied''\<rparr>]\<rparr>,
      ws_results =
        \<lparr>issues_found = 1, files_scanned = 1, files_fixed = 0,
         problems =
           [\<lparr>problem_file = ''x'',
             problem_issue = ProcessIssue ''Failed to process file: Permission denied'',
             problem_fix_result = Some (FixError (ReadFailed
               \<lparr>os_errno = 13, os_message = ''Permission denied''\<rparr>))\<rparr>]\<rparr>,
      ws_output = [''Issue found in x: Failed to process file: Permission denied'',
                   ''  Fix attempt: error'']\<rparr>"
  using visit_path_unreadable
    [of "init_state ((posix_fs [''x'' \<mapsto> [0x61]])
           \<lparr>fs_read_fault := [''x'' \<mapsto> \<lparr>os_errno = 13, os_message = ''Permission denied''\<rparr>]\<rparr>)"
        "''x''" "[0x61]" "\<lparr>os_errno = 13, os_message = ''Permission denied''\<rparr>" True]
  by (simp add: init_state_def init_results_def size_limit_def)

text \<open>
  C27. What \<^verbatim>\<open>scan_directory\<close> returns and prints depends on the candidate files only:
  two runs over the same listing, on file systems with the same faults and line
  separator that hold the same bytes at the candidate paths, return the same results
  and print the same lines, and the two file systems hold the same bytes at the
  candidate paths afterwards. In particular, a file under \<^verbatim>\<open>.git\<close> or
  \<^verbatim>\<open>node_modules\<close> and a file with another extension have no influence on the report.
\<close>

theorem scan_directory_depends_on_candidates:
  assumes "agree_on (set (candidates extensions directory tree)) fs fs'"
  shows "ws_results (scan_directory fs tree directory extensions fix)
           = ws_results (scan_directory fs' tree directory extensions fix)
         \<and> ws_output (scan_directory fs tree directory extensions fix)
           = ws_output (scan_directory fs' tree directory extensions fix)
         \<and> agree_on (set (candidates extensions directory tree))
             (ws_fs (scan_directory fs tree directory extensions fix))
             (ws_fs (scan_directory fs' tree directory extensions fix))"
  using assms
    fold_visit_agree [of "set (candidates extensions directory tree)" "init_state fs"
      "init_state fs'" "candidates extensions directory tree" "fix"]
  by (simp add: scan_directory_candidates same_report_def init_state_def)

theorem scan_directory_depends_on_candidates_witness:
  "agree_on (set (candidates [''.txt''] ''.'' demo_tree)) demo_fs
     (posix_fs [''./a.txt'' \<mapsto> hello_ff, ''./sub/d.txt'' \<mapsto> [0x48, 0x69]])
   \<and> ws_results (scan_directory demo_fs demo_tree ''.'' [''.txt''] True)
     = ws_results (scan_directory
         (posix_fs [''./a.txt'' \<mapsto> hello_ff, ''./sub/d.txt'' \<mapsto> [0x48, 0x69]])
         demo_tree ''.'' [''.txt''] True)
   \<and> ws_output (scan_directory demo_fs demo_tree ''.'' [''.txt''] True)
     = ws_output (scan_directory
         (posix_fs [''./a.txt'' \<mapsto> hello_ff, ''./sub/d.txt'' \<mapsto> [0x48, 0x69]])
         demo_tree ''.'' [''.txt''] True)"
  using scan_directory_depends_on_candidates
    [of "[''.txt'']" "''.''" demo_tree demo_fs
        "posix_fs [''./a.txt'' \<mapsto> hello_ff, ''./sub/d.txt'' \<mapsto> [0x48, 0x69]]" True]
  by (simp add: agree_on_def candidates_demo demo_fs_def)

text \<open>
  C36. A file that was fixed can be invalid again when \<^verbatim>\<open>scan_directory\<close> returns: in a
  directory that lists \<^verbatim>\<open>x.bak\<close> before \<^verbatim>\<open>x\<close>, both invalid, both are reported as fixed,
  but the backup of \<^verbatim>\<open>x\<close> has overwritten the repaired \<^verbatim>\<open>x.bak\<close> with the invalid bytes
  of \<^verbatim>\<open>x\<close>.
\<close>

theorem backup_clobbers_fixed:
  "map (\<lambda>p. (problem_file p, map_option fix_status (problem_fix_result p)))
     (problems (ws_results (scan_directory clobber_fs clobber_tree ''d'' [] True)))
     = [(''d/x.bak'', Some ''fixed''), (''d/x'', Some ''fixed'')]
   \<and> fs_files (ws_fs (scan_directory clobber_fs clobber_tree ''d'' [] True)) ''d/x.bak''
       = Some [0xfe]
   \<and> scan_file (ws_fs (scan_directory clobber_fs clobber_tree ''d'' [] True)) ''d/x.bak''
       \<noteq> None"
proof -
  let ?st0 = "init_state clobber_fs"
  let ?st1 = "visit_path True ''d/x.bak'' ?st0"
  let ?st2 = "visit_path True ''d/x'' ?st1"
  let ?f1 = "[''d/x.bak'' \<mapsto> [0xef, 0xbf, 0xbd], ''d/x'' \<mapsto> [0xfe :: byte],
              ''d/x.bak.bak'' \<mapsto> [0xff]]"
  let ?f2 = "[''d/x.bak'' \<mapsto> [0xfe :: byte], ''d/x'' \<mapsto> [0xef, 0xbf, 0xbd],
              ''d/x.bak.bak'' \<mapsto> [0xff]]"
  have run: "scan_directory clobber_fs clobber_tree ''d'' [] True = ?st2"
    by (simp add: scan_directory_candidates candidates_def clobber_tree_def walk_eval)
  obtain i1 i2 where i: "scan_content [0xff] = Some i1" "scan_content [0xfe] = Some i2"
    by (simp add: scan_content_Some [OF decode_single_ff(1)]
        scan_content_Some [OF decode_single_ff(2)])
  have st1: "ws_fs ?st1 = posix_fs ?f1"
    "map (\<lambda>p. (problem_file p, map_option fix_status (problem_fix_result p)))
       (problems (ws_results ?st1)) = [(''d/x.bak'', Some ''fixed'')]"
    using visit_path_posix_fix [of ?st0 "[''d/x.bak'' \<mapsto> [0xff], ''d/x'' \<mapsto> [0xfe]]"
        "''d/x.bak''" "[0xff]", OF _ _ _ i(1) repair_single_ff(1)]
    by (auto simp: init_state_def init_results_def clobber_fs_def size_limit_def
        backup_path_def fun_upd_twist)
  have st2: "ws_fs ?st2 = posix_fs ?f2"
    "map (\<lambda>p. (problem_file p, map_option fix_status (problem_fix_result p)))
       (problems (ws_results ?st2)) = [(''d/x.bak'', Some ''fixed''), (''d/x'', Some ''fixed'')]"
    using visit_path_posix_fix [of ?st1 ?f1 "''d/x''" "[0xfe]",
        OF st1(1) _ _ i(2) repair_single_ff(2)] st1(2)
    by (auto simp: size_limit_def backup_path_def fun_upd_twist)
  from st2 decode_single_ff(2) show ?thesis
    unfolding run by (simp add: scan_file_def read_file_posix scan_content_None_iff)
qed

end
