(* ===== verification/Main_Report.thy ===== *)
theory Main_Report
  imports Scan_Directory
begin

text \<open>
  \<^verbatim>\<open>main\<close> (lines 103-136 of \<^verbatim>\<open>src/fix_utf8.py\<close>): the list of extensions obtained from
  the command line, the banner, the call of \<^verbatim>\<open>scan_directory\<close>, the summary and the list
  of problematic files. What \<^verbatim>\<open>print\<close> writes is a list of strings, one per call, in the
  order of the calls. The subscript \<^verbatim>\<open>problem['fix_result']\<close> of line 133 raises
  \<^verbatim>\<open>KeyError\<close> for a problem without that key; the model keeps this as a result \<open>Inl\<close>
  that carries the lines printed before the exception, and the lemmas show that it does
  not occur.
\<close>

section \<open>The command line\<close>

text \<open>
  The three options that lines 105-107 declare, as the fields of the namespace:
  \<^verbatim>\<open>--directory\<close>, \<^verbatim>\<open>--extensions\<close> (\<^verbatim>\<open>None\<close> when the option is not given) and the flag
  \<^verbatim>\<open>--fix\<close>.
\<close>

record args =
  arg_directory :: path
  arg_extensions :: "string option"
  arg_fix :: bool

text \<open>
  The defaults of lines 105-107, that is the namespace of a command line without
  options: \<^verbatim>\<open>default='.'\<close>, no default (hence \<^verbatim>\<open>None\<close>), and \<^verbatim>\<open>store_true\<close> (hence
  \<^verbatim>\<open>False\<close>).
\<close>

definition default_args :: args where
  "default_args = \<lparr>arg_directory = ''.'', arg_extensions = None, arg_fix = False\<rparr>"

text \<open>\<^verbatim>\<open>s.split(',')\<close>\<close>

fun split_commas :: "string \<Rightarrow> string list" where
  "split_commas [] = [[]]"
| "split_commas (c # cs) =
     (if c = CHR '','' then [] # split_commas cs
      else (c # hd (split_commas cs)) # tl (split_commas cs))"

text \<open>Line 110: \<^verbatim>\<open>args.extensions.split(',') if args.extensions else []\<close>\<close>

definition extensions_of :: "string option \<Rightarrow> string list" where
  "extensions_of e =
     (case e of None \<Rightarrow> [] | Some s \<Rightarrow> if s = [] then [] else split_commas s)"

section \<open>Rendering\<close>

text \<open>
  \<^verbatim>\<open>repr\<close> of a string whose characters are below U+0100: the quote is \<^verbatim>\<open>"\<close> when the
  string contains \<^verbatim>\<open>'\<close> and no \<^verbatim>\<open>"\<close>, and \<^verbatim>\<open>'\<close> otherwise; the quote and the backslash
  are escaped, tab, newline and carriage return have their letters, other characters
  that are not printable are written as \<^verbatim>\<open>\xNN\<close>.
\<close>

definition printable :: "char \<Rightarrow> bool" where
  "printable c \<longleftrightarrow>
     (let n = (of_char c :: nat) in (0x20 \<le> n \<and> n < 0x7f) \<or> (0xa1 \<le> n \<and> n \<noteq> 0xad))"

definition repr_char :: "char \<Rightarrow> char \<Rightarrow> string" where
  "repr_char q c =
     (if c = q \<or> c = CHR 0x5C then [CHR 0x5C, c]
      else if c = CHR 0x09 then [CHR 0x5C, CHR ''t'']
      else if c = CHR 0x0A then [CHR 0x5C, CHR ''n'']
      else if c = CHR 0x0D then [CHR 0x5C, CHR ''r'']
      else if printable c then [c]
      else [CHR 0x5C, CHR ''x'', hex_digit (of_char c div 16), hex_digit (of_char c mod 16)])"

definition py_repr :: "string \<Rightarrow> string" where
  "py_repr s =
     (let q = (if CHR 0x27 \<in> set s \<and> CHR 0x22 \<notin> set s then CHR 0x22 else CHR 0x27)
      in [q] @ concat (map (repr_char q) s) @ [q])"

text \<open>\<^verbatim>\<open>str\<close> of a list of strings.\<close>

definition str_list :: "string list \<Rightarrow> string" where
  "str_list xs = ''['' @ py_join '', '' (map py_repr xs) @ '']''"

text \<open>\<^verbatim>\<open>issue.get('hex_context')\<close> in an f-string: \<^verbatim>\<open>None\<close> when the key is missing.\<close>

definition hex_context_text :: "issue \<Rightarrow> string" where
  "hex_context_text i =
     (case i of DecodeIssue err pos hex \<Rightarrow> hex | ProcessIssue err \<Rightarrow> ''None'')"

section \<open>The output\<close>

text \<open>Lines 112-115.\<close>

definition banner :: "args \<Rightarrow> string list \<Rightarrow> string list" where
  "banner a extensions =
     [''Scanning directory: '' @ arg_directory a,
      ''File extensions: '' @ (if extensions = [] then ''all'' else str_list extensions),
      ''Fix mode: '' @ (if arg_fix a then ''enabled'' else ''disabled''),
      ''---'']"

text \<open>Lines 119-124.\<close>

definition summary :: "bool \<Rightarrow> results \<Rightarrow> string list" where
  "summary fix res =
     [''---'',
      ''Scan complete. Scanned '' @ str_nat (files_scanned res) @ '' files.'',
      ''Found '' @ str_nat (issues_found res) @ '' files with UTF-8 issues.'']
     @ (if fix then [''Fixed '' @ str_nat (files_fixed res) @ '' files.''] else [])"

text \<open>
  Lines 129-136, for one problem. \<open>Inl\<close> is \<^verbatim>\<open>KeyError\<close>, with the lines printed before it.
\<close>

definition report_problem :: "bool \<Rightarrow> problem \<Rightarrow> (string list, string list) result" where
  "report_problem fix p =
     (let head =
        [''- '' @ problem_file p,
         ''  Error: '' @ issue_error (problem_issue p),
         ''  Hex context: '' @ hex_context_text (problem_issue p)]
      in if fix then
           (case problem_fix_result p of
              None \<Rightarrow> Inl head
            | Some r \<Rightarrow>
                Inr (head @ [''  Fix status: '' @ fix_status r]
                     @ (case r of Fixed backup \<Rightarrow> [''  Backup: '' @ backup] | FixError e \<Rightarrow> [])
                     @ ['''']))
         else Inr (head @ ['''']))"

text \<open>The loop of line 128.\<close>

fun report_problems :: "bool \<Rightarrow> problem list \<Rightarrow> (string list, string list) result" where
  "report_problems fix [] = Inr []"
| "report_problems fix (p # ps) =
     (case report_problem fix p of
        Inl out \<Rightarrow> Inl out
      | Inr out \<Rightarrow>
          (case report_problems fix ps of
             Inl out' \<Rightarrow> Inl (out @ out')
           | Inr out' \<Rightarrow> Inr (out @ out')))"

text \<open>Lines 126-136.\<close>

definition report :: "bool \<Rightarrow> results \<Rightarrow> (string list, string list) result" where
  "report fix res =
     (if issues_found res > 0 then
        (case report_problems fix (problems res) of
           Inl out \<Rightarrow> Inl ((CHR 0x0A # ''Problematic files:'') # out)
         | Inr out \<Rightarrow> Inr ((CHR 0x0A # ''Problematic files:'') # out))
      else Inr [])"

text \<open>
  \<^verbatim>\<open>main\<close>: what is printed, whether the function returns (\<open>Inr\<close>) or raises (\<open>Inl\<close>), and
  the file system it leaves.
\<close>

definition main :: "file_system \<Rightarrow> dir_tree \<Rightarrow> args \<Rightarrow> (string list, string list) result \<times> file_system"
  where
  "main fs tree a =
     (let extensions = extensions_of (arg_extensions a);
          st = scan_directory fs tree (arg_directory a) extensions (arg_fix a);
          out = banner a extensions @ ws_output st @ summary (arg_fix a) (ws_results st)
      in (case report (arg_fix a) (ws_results st) of
            Inl r \<Rightarrow> Inl (out @ r)
          | Inr r \<Rightarrow> Inr (out @ r),
          ws_fs st))"

section \<open>Splitting at commas\<close>

lemma split_commas_nonempty [simp]: "split_commas s \<noteq> []"
  by (induction s) simp_all

lemma py_join_Cons_Cons: "py_join sep ((c # x) # xs) = c # py_join sep (x # xs)"
  by (cases xs) simp_all

lemma py_join_split_commas: "py_join '','' (split_commas s) = s"
proof (induction s)
  case Nil
  show ?case by simp
next
  case (Cons c cs)
  have "py_join '','' (hd (split_commas cs) # tl (split_commas cs)) = cs"
    using Cons.IH by simp
  then show ?case by (simp add: py_join_Cons py_join_Cons_Cons)
qed

lemma split_commas_no_comma: "list_all (\<lambda>w. CHR '','' \<notin> set w) (split_commas s)"
proof (induction s)
  case Nil
  show ?case by simp
next
  case (Cons c cs)
  obtain h t where r: "split_commas cs = h # t" by (cases "split_commas cs") simp_all
  with Cons.IH show ?case by (auto simp: r)
qed

lemma split_commas_word: "CHR '','' \<notin> set w \<Longrightarrow> split_commas w = [w]"
  by (induction w) auto

lemma split_commas_append:
  "CHR '','' \<notin> set w \<Longrightarrow> split_commas (w @ CHR '','' # s) = w # split_commas s"
  by (induction w) auto

lemma split_commas_py_join:
  "ws \<noteq> [] \<Longrightarrow> list_all (\<lambda>w. CHR '','' \<notin> set w) ws \<Longrightarrow>
   split_commas (py_join '','' ws) = ws"
  by (induction "'',''" ws rule: py_join.induct)
    (simp_all add: split_commas_word split_commas_append)

lemma split_commas_snoc: "split_commas (s @ '','') = split_commas s @ [[]]"
  by (induction s) simp_all

section \<open>The report does not raise\<close>

lemma report_problems_Inr:
  "list_all (\<lambda>p. (problem_fix_result p \<noteq> None) = fix) ps \<Longrightarrow>
   \<exists>out. report_problems fix ps = Inr out"
  by (induction ps) (auto simp: report_problem_def)

lemma report_Inr: "results_ok fix res \<Longrightarrow> \<exists>out. report fix res = Inr out"
  using report_problems_Inr [of "fix" "problems res"]
  by (auto simp: report_def results_ok_def)

section \<open>The lines that name a file\<close>

lemma report_problem_names:
  "report_problem fix p = Inr out \<Longrightarrow> filter (prefix ''- '') out = [''- '' @ problem_file p]"
  by (auto simp: report_problem_def Let_def split: if_splits option.splits fix_result.splits)

lemma report_problems_names:
  "report_problems fix ps = Inr out \<Longrightarrow>
   filter (prefix ''- '') out = map (\<lambda>p. ''- '' @ problem_file p) ps"
proof (induction ps arbitrary: out)
  case Nil
  then show ?case by simp
next
  case (Cons p ps)
  from Cons.prems obtain o1 o2 where o: "report_problem fix p = Inr o1"
    "report_problems fix ps = Inr o2" "out = o1 @ o2"
    by (auto split: sum.splits)
  from report_problem_names [OF o(1)] Cons.IH [OF o(2)] show ?case by (simp add: o(3))
qed

lemma feedback_line_no_name: "feedback_line l \<Longrightarrow> \<not> prefix ''- '' l"
  by (auto simp: feedback_line_def prefix_def)

lemma filter_feedback_lines:
  "list_all feedback_line ls \<Longrightarrow> filter (prefix ''- '') ls = []"
  by (induction ls) (simp_all add: feedback_line_no_name)

lemma banner_names [simp]: "filter (prefix ''- '') (banner a extensions) = []"
  by (simp add: banner_def)

lemma summary_names [simp]: "filter (prefix ''- '') (summary fix res) = []"
  by (simp add: summary_def)

lemma report_names:
  assumes "results_ok fix res" and "report fix res = Inr out"
  shows "filter (prefix ''- '') out = map (\<lambda>p. ''- '' @ problem_file p) (problems res)"
proof (cases "issues_found res > 0")
  case True
  with assms(2) obtain r where r: "report_problems fix (problems res) = Inr r"
    and out: "out = (CHR 0x0A # ''Problematic files:'') # r"
    by (auto simp: report_def split: sum.splits)
  from report_problems_names [OF r] show ?thesis by (simp add: out)
next
  case False
  with assms show ?thesis by (simp add: report_def results_ok_def)
qed

section \<open>The command without options\<close>

text \<open>
  Without options the command is a dry run from the current directory in which every
  file that the walk reaches is a candidate.
\<close>

lemma default_args_candidates:
  "candidates (extensions_of (arg_extensions default_args)) (arg_directory default_args) tree
     = concat (map (\<lambda>(root, files). map (path_join root) files) (walk ''.'' tree))"
  by (simp add: default_args_def extensions_of_def candidates_def wanted_def)

lemma main_default_fs: "snd (main fs tree default_args) = fs"
  by (simp add: main_def Let_def default_args_def scan_directory_dry_fs)

section \<open>Properties of the command\<close>

text \<open>
  C18. \<^verbatim>\<open>main\<close> returns: the subscript \<^verbatim>\<open>problem['fix_result']\<close> of the final report is
  evaluated only in fix mode, in which \<^verbatim>\<open>scan_directory\<close> has stored a fix result with
  every problem, so \<^verbatim>\<open>KeyError\<close> is never raised.
\<close>

theorem main_returns: "\<exists>out. fst (main fs tree a) = Inr out"
proof -
  let ?st = "scan_directory fs tree (arg_directory a) (extensions_of (arg_extensions a)) (arg_fix a)"
  have "results_ok (arg_fix a) (ws_results ?st)"
    using scan_directory_ok [of "arg_fix a" fs tree] by (simp add: walk_ok_def)
  from report_Inr [OF this] show ?thesis by (auto simp: main_def Let_def)
qed

text \<open>
  C32. The output of \<^verbatim>\<open>main\<close> names every problematic file once: the lines that begin
  with \<^verbatim>\<open>- \<close> are those of the problems that \<^verbatim>\<open>scan_directory\<close> has recorded, in the
  order in which they were found.
\<close>

theorem main_lists_problems:
  "\<exists>out. fst (main fs tree a) = Inr out
     \<and> filter (prefix ''- '') out
         = map (\<lambda>p. ''- '' @ problem_file p)
             (problems (ws_results (scan_directory fs tree (arg_directory a)
                (extensions_of (arg_extensions a)) (arg_fix a))))"
proof -
  let ?st = "scan_directory fs tree (arg_directory a) (extensions_of (arg_extensions a)) (arg_fix a)"
  have ok: "results_ok (arg_fix a) (ws_results ?st)"
    using scan_directory_ok [of "arg_fix a" fs tree] by (simp add: walk_ok_def)
  from report_Inr [OF ok] obtain r where r: "report (arg_fix a) (ws_results ?st) = Inr r" ..
  have "filter (prefix ''- '') (ws_output ?st) = []"
    by (rule filter_feedback_lines [OF scan_directory_output])
  with report_names [OF ok r] r show ?thesis by (simp add: main_def Let_def)
qed

text \<open>
  C33. \<^verbatim>\<open>split(',')\<close> is inverse to \<^verbatim>\<open>','.join\<close>: joining the pieces with commas gives
  the string back, and no piece contains a comma.
\<close>

theorem split_commas_roundtrip:
  "py_join '','' (split_commas s) = s \<and> list_all (\<lambda>w. CHR '','' \<notin> set w) (split_commas s)"
  by (simp add: py_join_split_commas split_commas_no_comma)

text \<open>
  C34. Without \<^verbatim>\<open>--fix\<close> the command leaves the file system as it found it.
\<close>

theorem main_dry_run: "snd (main fs tree (a\<lparr>arg_fix := False\<rparr>)) = fs"
  by (simp add: main_def Let_def scan_directory_dry_fs)

text \<open>
  C35. An extension list that ends with a comma selects every file: its last piece is
  the empty string, and every file name ends with the empty string.
\<close>

theorem trailing_comma_selects_all: "wanted (extensions_of (Some (s @ '',''))) file"
  by (simp add: extensions_of_def split_commas_snoc wanted_def)

end
