(* ===== verification/Spec2Isabelle.thy ===== *)
theory Spec2Isabelle
  imports Main_Report
begin

text \<open>
  \<^bold>\<open>A verification development for \<^verbatim>\<open>src/fix_utf8.py\<close>.\<close>

  The program walks a directory tree, reads every candidate file as bytes, asks the
  interpreter's UTF-8 decoder whether the bytes are valid, reports the first invalid
  position with a hex dump of the bytes around it, and in fix mode rewrites the file with
  every rejected byte run replaced by U+FFFD after saving the original bytes beside it.
  \<^verbatim>\<open>main\<close> calls \<^verbatim>\<open>scan_directory\<close>, which calls \<^verbatim>\<open>scan_file\<close> and, in fix mode,
  \<^verbatim>\<open>fix_file\<close> for every file with an issue; both call the codec. The theories follow
  this order, each importing the one before it.

  \<^bold>\<open>Parts of the program and the theories that model them.\<close>

  \<^item> \<open>Utf8_Prelude\<close>: the types of the model (\<open>byte = 8 word\<close>, \<open>bytes\<close>, \<open>pystr\<close> as a
    list of code points, \<open>path\<close>), the lemma collections, the shared facts on bytes and
    base-64 digits, and the Python primitives the program uses everywhere: slices
    (\<open>py_slice\<close>), \<^verbatim>\<open>str.join\<close> (\<open>py_join\<close>), the decimal rendering of an int (\<open>str_nat\<close>).
  \<^item> \<open>Utf8_Codec\<close>: the codec the program calls and does not contain:
    \<^verbatim>\<open>bytes.decode('utf-8')\<close> is \<open>decode_utf8\<close>, \<^verbatim>\<open>bytes.decode('utf-8', errors='replace')\<close>
    is \<open>decode_replace\<close>, the encoding of a text file opened with \<^verbatim>\<open>encoding='utf-8'\<close> is
    \<open>utf8_encode\<close>. All three run on \<open>utf8_step\<close>, one decoding step with the
    interpreter's error classes and error lengths. Its lemmas: every step covers between
    one byte and the rest of the input (which is the termination argument of both
    drivers), a decoded code point re-encodes to the bytes read (\<open>step_encode\<close>), an
    encoded code point decodes to itself whatever follows (\<open>encode_step\<close>), decoder and
    encoder are inverse (\<open>decode_utf8_iff_encode\<close>), an error range lies inside the buffer
    and is the first one (\<open>decode_from_bounds\<close>, \<open>decode_from_error_prefix\<close>,
    \<open>decode_from_error_stable\<close>).
  \<^item> \<open>File_System\<close>: the files the program opens, as a record \<open>file_system\<close> that is
    passed explicitly: contents by path, the faults of reading and writing, the error of
    a missing file, \<^verbatim>\<open>os.linesep\<close>. \<open>read_file\<close>, \<open>getsize\<close>, \<open>write_file\<close> and
    \<open>write_text\<close> are the four ways in which the source touches a file; a write returns
    the new state also when it fails. Its lemmas are the frame and lookup laws.
    \<open>posix_fs\<close> is the file system without faults used in the examples.
  \<^item> \<open>Scan_File\<close>: \<^verbatim>\<open>scan_file\<close> (lines 6-33): \<open>scan_content\<close> is the inner \<^verbatim>\<open>try\<close>,
    \<open>context_start\<close>, \<open>context_end\<close>, \<open>context_bytes\<close> and \<open>hex_repr\<close> the window and the
    dump, \<open>str_decode_error\<close> the text of the exception, \<open>issue\<close> the returned dictionary
    with its two shapes. Its lemmas: the window bounds, the layout of the dump and that
    it can be read back (\<open>unhex_repr\<close>), and when the scan reports nothing.
  \<^item> \<open>Fix_File\<close>: \<^verbatim>\<open>fix_file\<close> (lines 35-55) as a function from a file system to a
    \<open>fix_result\<close> and a file system; \<open>repair\<close> is the content a successful fix leaves.
    Its lemmas: the four ways through the function (\<open>fix_file_cases\<close>), what each leaves
    on disk, that the bytes read survive in the file or the backup, identity and
    idempotence of \<open>repair\<close> where \<^verbatim>\<open>os.linesep\<close> is \<^verbatim>\<open>'\n'\<close>, and for any other
    separator the repaired bytes as those of \<^verbatim>\<open>'\n'\<close> with every byte \<^verbatim>\<open>0a\<close> replaced
    (\<open>translate_newline_bytes\<close>, \<open>encode_translate\<close>).
  \<^item> \<open>Scan_Directory\<close>: \<^verbatim>\<open>scan_directory\<close> (lines 57-101). \<open>dir_tree\<close> is the listing
    that \<^verbatim>\<open>os.walk\<close> reads, \<open>walk\<close> the sequence of \<^verbatim>\<open>(root, files)\<close> that the loop sees
    after the pruning of lines 63-66 (\<open>prune_dirs\<close>), \<open>wanted\<close> the extension filter,
    \<open>skipped\<close> the size check, \<open>visit_path\<close> and \<open>record_problem\<close> the body of the inner
    loop on the record \<open>walk_state\<close> (file system, \<open>results\<close>, printed lines). Its lemmas
    turn the nested loops into one fold over \<open>candidates\<close>, prove the invariant \<open>walk_ok\<close>
    of the counters, characterise the directories reached, and give the result of a run
    without \<^verbatim>\<open>fix\<close> as a list comprehension (\<open>dry_state\<close>). Two further groups are
    about whole runs: file systems that agree on the candidate paths (\<open>agree_on\<close>) give
    the same report (\<open>visit_path_agree\<close>, \<open>fold_visit_agree\<close>); and on a file system
    without faults a fix run over paths of which none is the backup of another
    (\<open>separate\<close>) repairs every path (\<open>repaired\<close>, \<open>fold_fix_posix\<close>).
  \<^item> \<open>Main_Report\<close>: \<^verbatim>\<open>main\<close> (lines 103-136): \<open>args\<close> is the parsed command line with
    the three options of lines 105-107 and \<open>default_args\<close> their defaults,
    \<open>extensions_of\<close> line 110 with \<open>split_commas\<close>, \<open>banner\<close>, \<open>summary\<close> and \<open>report\<close>
    the printed lines, \<open>main\<close> their composition with \<open>scan_directory\<close>. Its lemmas:
    \<^verbatim>\<open>split\<close> and \<^verbatim>\<open>join\<close> are inverse, the report never raises \<^verbatim>\<open>KeyError\<close>, and which
    lines name a file.
  \<^item> This theory: properties of whole runs, from the command line to the disk: a tree
    without issues is left alone (\<open>clean_tree_untouched\<close>), and a fix run leaves every
    candidate valid with its old bytes in the backup, so that a second run finds
    nothing (\<open>fix_run_repairs\<close>).

  \<^bold>\<open>What modelling showed.\<close> \<open>files_scanned\<close> counts files that are then skipped for
  their size (\<open>scan_directory_files_scanned\<close>); a second run of \<^verbatim>\<open>fix_file\<close> replaces the
  backup of the first (\<open>fix_file_twice_backup\<close>), and within one run the backup of
  \<^verbatim>\<open>x\<close> overwrites a file \<^verbatim>\<open>x.bak\<close> that was repaired before (\<open>backup_clobbers_fixed\<close>);
  where \<^verbatim>\<open>os.linesep\<close> is not \<^verbatim>\<open>'\n'\<close> the text-mode write replaces every byte \<^verbatim>\<open>0a\<close> of
  the repaired content, those of the valid parts included, by the separator
  (\<open>repair_newlines\<close>); an extension list with a trailing comma selects every file
  (\<open>trailing_comma_selects_all\<close>); a file that is present but cannot be read is
  reported as an issue and, in fix mode, as a failed fix, and is not written
  (\<open>visit_path_unreadable\<close>).

  \<^bold>\<open>Bounds and fuel.\<close> No definition uses fuel. The two decoder loops and the walk are
  \<^theory_text>\<open>function\<close>s with termination proofs: the remaining input gets shorter in every
  step of the decoder (\<open>step_len_bounds\<close>), and the walk descends into subtrees. Counters
  are natural numbers, as Python's integers do not overflow. Paths, file names and the
  strings printed are lists of 8-bit characters; the text of a file is a list of code
  points. Path joining is that of a POSIX system.

  \<^bold>\<open>Not modelled.\<close> The parsing of the command line by \<^verbatim>\<open>argparse\<close> (lines 104 and 108:
  the model has the options and their defaults and starts from the parsed \<open>args\<close>), the
  entry point of lines 138-139, and the encoding of the printed lines by \<^verbatim>\<open>print\<close>:
  library calls without a decision of the program in them. Symbolic links and unreadable
  directories appear in a \<open>dir_tree\<close> as directories without entries, which is what
  \<^verbatim>\<open>os.walk\<close> makes of them. Changes to the tree by other processes during the walk are
  outside the model, except that a listed file may be missing from the file system.
\<close>

section \<open>A tree without issues\<close>

lemma clean_scan:
  assumes "list_all (clean_path fs) (candidates extensions directory tree)"
  shows "scan_directory fs tree directory extensions fix =
     \<lparr>ws_fs = fs,
      ws_results = \<lparr>issues_found = 0,
                    files_scanned = length (candidates extensions directory tree),
                    files_fixed = 0, problems = []\<rparr>,
      ws_output = []\<rparr>"
  using fold_visit_clean [of "init_state fs" "candidates extensions directory tree" "fix"] assms
  by (simp add: scan_directory_candidates init_state_def init_results_def)

text \<open>
  C31. When no candidate file has an issue, the command changes nothing on disk, in
  fix mode too, and prints the banner and a summary with the number of candidates and
  no issue.
\<close>

theorem clean_tree_untouched:
  assumes "list_all (clean_path fs)
             (candidates (extensions_of (arg_extensions a)) (arg_directory a) tree)"
  shows "main fs tree a =
     (Inr (banner a (extensions_of (arg_extensions a)) @
           [''---'',
            ''Scan complete. Scanned ''
              @ str_nat (length (candidates (extensions_of (arg_extensions a))
                  (arg_directory a) tree))
              @ '' files.'',
            ''Found 0 files with UTF-8 issues.'']
           @ (if arg_fix a then [''Fixed 0 files.''] else [])),
      fs)"
  by (simp add: main_def Let_def clean_scan [OF assms] summary_def report_def)
    (simp add: str_nat.simps digit_char_def)

lemmas report_eval =
  banner_def summary_def report_def report_problem_def hex_context_text_def str_list_def
  py_repr_def repr_char_def printable_def extensions_of_def str_nat.simps digit_char_def
  issue_feedback_def fix_feedback_def Let_def

theorem clean_tree_untouched_witness:
  "list_all (clean_path demo_fs) (candidates (extensions_of (Some ''d.txt'')) ''.'' demo_tree)
   \<and> main demo_fs demo_tree
       \<lparr>arg_directory = ''.'', arg_extensions = Some ''d.txt'', arg_fix = True\<rparr>
     = (Inr [''Scanning directory: .'',
             ''File extensions: ['' @ [CHR 0x27] @ ''d.txt'' @ [CHR 0x27] @ '']'',
             ''Fix mode: enabled'', ''---'', ''---'',
             ''Scan complete. Scanned 1 files.'',
             ''Found 0 files with UTF-8 issues.'',
             ''Fixed 0 files.''],
        demo_fs)"
proof -
  let ?a = "\<lparr>arg_directory = ''.'', arg_extensions = Some ''d.txt'', arg_fix = True\<rparr>"
  have c: "candidates (extensions_of (Some ''d.txt'')) ''.'' demo_tree = [''./sub/d.txt'']"
    by (simp add: candidates_def walk_demo extensions_of_def) (simp add: walk_eval)
  have "decode_utf8 [0x48, 0x69] = Inr [0x48, 0x69]" by (simp add: codec_eval)
  then have clean: "list_all (clean_path demo_fs)
      (candidates (extensions_of (Some ''d.txt'')) ''.'' demo_tree)"
    by (simp add: c clean_path_def scan_file_def demo_fs_def read_file_posix scan_content_def)
  from clean_tree_untouched [of demo_fs ?a demo_tree] clean show ?thesis
    by (simp add: c) (simp add: report_eval)
qed

section \<open>A run in fix mode\<close>

text \<open>
  The scenario of a file with the bytes \<^verbatim>\<open>48 65 6c 6c 6f ff 6f\<close>, in a tree that also has
  a file of another extension, a valid file, and files below \<^verbatim>\<open>.git\<close> and
  \<^verbatim>\<open>node_modules\<close>.
\<close>

definition hello_error :: string where
  "hello_error = codec_name @ '' codec can'' @ [CHR 0x27]
     @ ''t decode byte 0xff in position 5: invalid start byte''"

lemma demo_scan:
  "scan_directory demo_fs demo_tree ''.'' [''.txt''] True =
     \<lparr>ws_fs = posix_fs
        [''./a.txt'' \<mapsto> hello_fixed, ''./b.bin'' \<mapsto> [0xff], ''./sub/d.txt'' \<mapsto> [0x48, 0x69],
         ''./.git/c.txt'' \<mapsto> [0xff], ''./a.txt.bak'' \<mapsto> hello_ff],
      ws_results =
        \<lparr>issues_found = 1, files_scanned = 2, files_fixed = 1,
         problems = [\<lparr>problem_file = ''./a.txt'',
                      problem_issue = DecodeIssue hello_error 5 ''48 65 6c 6c 6f ff 6f'',
                      problem_fix_result = Some (Fixed ''./a.txt.bak'')\<rparr>]\<rparr>,
      ws_output = [''Issue found in ./a.txt: '' @ hello_error, ''  Fix attempt: fixed'']\<rparr>"
proof -
  let ?files = "[''./a.txt'' \<mapsto> hello_ff, ''./b.bin'' \<mapsto> [0xff],
                 ''./sub/d.txt'' \<mapsto> [0x48, 0x69], ''./.git/c.txt'' \<mapsto> [0xff :: byte]]"
  let ?st1 = "visit_path True ''./a.txt'' (init_state demo_fs)"
  have len: "length hello_ff \<le> size_limit" by (simp add: hello_ff_def size_limit_def)
  have i: "scan_content hello_ff = Some (DecodeIssue hello_error 5 ''48 65 6c 6c 6f ff 6f'')"
    by (simp add: scan_hello_ff hello_error_def)
  have r: "repair [10] hello_ff = Inr hello_fixed"
    by (simp add: repair_hello_ff hello_fixed_def)
  have st1: "?st1 =
     \<lparr>ws_fs = posix_fs (?files(''./a.txt.bak'' \<mapsto> hello_ff, ''./a.txt'' \<mapsto> hello_fixed)),
      ws_results =
        \<lparr>issues_found = 1, files_scanned = 1, files_fixed = 1,
         problems = [\<lparr>problem_file = ''./a.txt'',
                      problem_issue = DecodeIssue hello_error 5 ''48 65 6c 6c 6f ff 6f'',
                      problem_fix_result = Some (Fixed ''./a.txt.bak'')\<rparr>]\<rparr>,
      ws_output = [''Issue found in ./a.txt: '' @ hello_error, ''  Fix attempt: fixed'']\<rparr>"
    using visit_path_posix_fix [of "init_state demo_fs" ?files "''./a.txt''" hello_ff,
        OF _ _ len i r]
    by (simp add: init_state_def init_results_def demo_fs_def backup_path_def
        issue_feedback_def fix_feedback_def)
  have d: "decode_utf8 [0x48, 0x69] = Inr [0x48, 0x69]" by (simp add: codec_eval)
  have "visit_path True ''./sub/d.txt'' ?st1 = count_scanned ?st1"
    by (rule visit_path_posix_clean
          [where content = "[0x48, 0x69]"
             and files = "?files(''./a.txt.bak'' \<mapsto> hello_ff, ''./a.txt'' \<mapsto> hello_fixed)",
           OF _ _ _ d])
      (simp_all add: st1 size_limit_def)
  then have run: "scan_directory demo_fs demo_tree ''.'' [''.txt''] True = count_scanned ?st1"
    by (simp add: scan_directory_candidates candidates_demo)
  have files: "?files(''./a.txt.bak'' \<mapsto> hello_ff, ''./a.txt'' \<mapsto> hello_fixed)
      = [''./a.txt'' \<mapsto> hello_fixed, ''./b.bin'' \<mapsto> [0xff], ''./sub/d.txt'' \<mapsto> [0x48, 0x69],
         ''./.git/c.txt'' \<mapsto> [0xff], ''./a.txt.bak'' \<mapsto> hello_ff]"
    by (rule ext) simp
  show ?thesis unfolding run st1 by (simp add: count_scanned_def files)
qed

text \<open>The whole command on this scenario, with every line it prints.\<close>

lemma main_demo:
  "main demo_fs demo_tree \<lparr>arg_directory = ''.'', arg_extensions = Some ''.txt'', arg_fix = True\<rparr>
     = (Inr [''Scanning directory: .'',
             ''File extensions: ['' @ [CHR 0x27] @ ''.txt'' @ [CHR 0x27] @ '']'',
             ''Fix mode: enabled'',
             ''---'',
             ''Issue found in ./a.txt: '' @ hello_error,
             ''  Fix attempt: fixed'',
             ''---'',
             ''Scan complete. Scanned 2 files.'',
             ''Found 1 files with UTF-8 issues.'',
             ''Fixed 1 files.'',
             CHR 0x0A # ''Problematic files:'',
             ''- ./a.txt'',
             ''  Error: '' @ hello_error,
             ''  Hex context: 48 65 6c 6c 6f ff 6f'',
             ''  Fix status: fixed'',
             ''  Backup: ./a.txt.bak'',
             ''''],
        posix_fs
          [''./a.txt'' \<mapsto> hello_fixed, ''./b.bin'' \<mapsto> [0xff], ''./sub/d.txt'' \<mapsto> [0x48, 0x69],
           ''./.git/c.txt'' \<mapsto> [0xff], ''./a.txt.bak'' \<mapsto> hello_ff])"
  by (simp add: main_def demo_scan report_eval)

section \<open>What a fix run achieves\<close>

text \<open>
  C39. A fix run does its work, on a file system without faults and a list of
  candidates in which no path comes twice and none is the backup of another: every
  candidate that was clean is as it was; of every other candidate the old bytes are in
  its backup and the file holds their repair; \<^verbatim>\<open>issues_found\<close> and \<^verbatim>\<open>files_fixed\<close> are both
  the number of candidates that were not clean; and a second run over the same listing,
  in either mode, finds no issue, prints nothing and leaves the files as they are.
  Without the condition on the backups this fails (\<open>backup_clobbers_fixed\<close>).
\<close>

theorem fix_run_repairs:
  assumes "separate (candidates extensions directory tree)"
  shows "let ps = candidates extensions directory tree;
             st = scan_directory (posix_fs files) tree directory extensions True
         in list_all (repaired files (fs_files (ws_fs st))) ps
            \<and> issues_found (ws_results st) = length (dirty files ps)
            \<and> files_fixed (ws_results st) = length (dirty files ps)
            \<and> scan_directory (ws_fs st) tree directory extensions fix
                = \<lparr>ws_fs = ws_fs st,
                   ws_results = \<lparr>issues_found = 0, files_scanned = length ps,
                                 files_fixed = 0, problems = []\<rparr>,
                   ws_output = []\<rparr>"
proof -
  let ?ps = "candidates extensions directory tree"
  let ?st = "scan_directory (posix_fs files) tree directory extensions True"
  from fold_fix_posix [of "init_state (posix_fs files)" files ?ps] assms
  have ok: "fix_run_ok files ?ps (init_state (posix_fs files)) ?st"
    by (simp add: scan_directory_candidates init_state_def)
  then obtain g where g: "ws_fs ?st = posix_fs g" and r: "list_all (repaired files g) ?ps"
    by (auto simp: fix_run_ok_def)
  from r have "list_all (clean_path (ws_fs ?st)) ?ps"
    by (auto simp: g list_all_iff repaired_clean)
  from clean_scan [OF this, of "fix"] ok show ?thesis
    by (simp add: fix_run_ok_def Let_def init_state_def init_results_def)
qed

theorem fix_run_repairs_witness:
  "separate (candidates [''.txt''] ''.'' demo_tree)
   \<and> dirty (fs_files demo_fs) (candidates [''.txt''] ''.'' demo_tree) = [''./a.txt'']
   \<and> list_all
       (repaired (fs_files demo_fs)
          (fs_files (ws_fs (scan_directory demo_fs demo_tree ''.'' [''.txt''] True))))
       (candidates [''.txt''] ''.'' demo_tree)
   \<and> issues_found (ws_results (scan_directory demo_fs demo_tree ''.'' [''.txt''] True)) = 1
   \<and> files_fixed (ws_results (scan_directory demo_fs demo_tree ''.'' [''.txt''] True)) = 1
   \<and> issues_found (ws_results
         (scan_directory (ws_fs (scan_directory demo_fs demo_tree ''.'' [''.txt''] True))
            demo_tree ''.'' [''.txt''] False)) = 0"
proof -
  have p: "demo_fs = posix_fs (fs_files demo_fs)" by (simp add: demo_fs_def)
  have s: "separate (candidates [''.txt''] ''.'' demo_tree)"
    by (simp add: candidates_demo separate_def backup_path_def)
  have a: "scan_content hello_ff \<noteq> None" "\<not> size_limit < length hello_ff"
    by (simp add: scan_hello_ff) (simp add: hello_ff_def size_limit_def)
  have b: "scan_content [0x48, 0x69] = None" by (simp add: scan_content_def codec_eval)
  have d: "dirty (fs_files demo_fs) (candidates [''.txt''] ''.'' demo_tree) = [''./a.txt'']"
    by (simp add: candidates_demo dirty_def clean_path_posix demo_fs_def a b)
  from fix_run_repairs [OF s, of "fs_files demo_fs" False] s d show ?thesis
    by (simp add: Let_def p [symmetric])
qed

end
